theory Spec2Isabelle
  imports Main "HOL-Library.Sublist"
begin

section \<open>Python strings\<close>

text \<open>
  A Python \<open>str\<close> is a sequence of Unicode code points, and the translated text of this
  program is Mongolian Cyrillic, so a string is modelled as the list of its code points
  (\<open>len\<close> counts code points, not bytes). \<open>py\<close> embeds an ASCII literal.
\<close>

type_synonym pystr = "nat list"

definition py :: "string \<Rightarrow> pystr" where
  "py s = map of_char s"

text \<open>
  The characters for which \<open>str.isspace\<close> holds. \<open>str.strip()\<close>, \<open>str.split()\<close> and the
  regular-expression class \<open>\s\<close> (on \<open>str\<close> patterns) all use this set.
\<close>

definition is_space :: "nat \<Rightarrow> bool" where
  "is_space c = (c \<in> set [9, 10, 11, 12, 13, 28, 29, 30, 31, 32, 133, 160, 5760,
      8192, 8193, 8194, 8195, 8196, 8197, 8198, 8199, 8200, 8201, 8202,
      8232, 8233, 8239, 8287, 12288])"

text \<open>\<open>s.strip()\<close>\<close>

definition strip :: "pystr \<Rightarrow> pystr" where
  "strip s = rev (dropWhile is_space (rev (dropWhile is_space s)))"

text \<open>\<open>s.split()\<close>: the maximal runs of non-whitespace characters; \<open>cur\<close> is the run being read.\<close>

fun split_ws :: "pystr \<Rightarrow> pystr \<Rightarrow> pystr list" where
  "split_ws cur [] = (if cur = [] then [] else [cur])"
| "split_ws cur (c # cs) =
     (if is_space c then (if cur = [] then split_ws [] cs else cur # split_ws [] cs)
      else split_ws (cur @ [c]) cs)"

text \<open>\<open>sub in s\<close> for two strings.\<close>

fun is_substring :: "pystr \<Rightarrow> pystr \<Rightarrow> bool" where
  "is_substring sub [] = (sub = [])"
| "is_substring sub (c # cs) = (prefix sub (c # cs) \<or> is_substring sub cs)"

text \<open>\<open>s.endswith(('.', '!', '?'))\<close>\<close>

definition is_punc :: "nat \<Rightarrow> bool" where
  "is_punc c = (c \<in> set (py ''.!?''))"

definition endswith_punc :: "pystr \<Rightarrow> bool" where
  "endswith_punc s = (s \<noteq> [] \<and> is_punc (last s))"

section \<open>The text segmenter (\<open>main.split_sentences\<close>)\<close>

text \<open>
  \<open>re.split(r'([.!?])\s+', text)\<close>: the text is cut at every terminal punctuation mark
  that is followed by whitespace; the result alternates chunk, punctuation mark, chunk,
  ..., and ends with the remainder, so its length is odd. \<open>cur\<close> is the chunk being read.
\<close>

function re_split :: "pystr \<Rightarrow> pystr \<Rightarrow> pystr list" where
  "re_split cur [] = [cur]"
| "re_split cur (c # cs) =
     (if is_punc c \<and> cs \<noteq> [] \<and> is_space (hd cs)
      then cur # [c] # re_split [] (dropWhile is_space cs)
      else re_split (cur @ [c]) cs)"
  by pat_completeness auto
termination
  by (relation "measure (\<lambda>(cur, s). length s)")
     (auto simp: less_Suc_eq_le length_dropWhile_le)

definition abbreviations :: "pystr set" where
  "abbreviations = set (map py [''Mr'', ''Mrs'', ''Ms'', ''Dr'', ''St'', ''a'', ''p'', ''v'',
      ''vs'', ''Inc'', ''Ltd'', ''Corp''])"

text \<open>
  The loop \<open>for i in range(0, len(raw_splits) - 1, 2)\<close>: it takes the chunks and punctuation
  marks two at a time, at the indices \<open>i\<close> and \<open>i + 1\<close>, as long as both exist.
\<close>

fun split_loop :: "pystr list \<Rightarrow> pystr \<Rightarrow> pystr list \<Rightarrow> pystr \<times> pystr list" where
  "split_loop (chunk # punc # rest) current sentences =
     (let current = current @ chunk @ punc;
          words = split_ws [] chunk;
          last_word = (if words \<noteq> [] then last words else [])
      in if last_word \<notin> abbreviations
         then split_loop rest [] (sentences @ [strip current])
         else split_loop rest current sentences)"
| "split_loop raw current sentences = (current, sentences)"

definition split_sentences :: "pystr \<Rightarrow> pystr list" where
  "split_sentences text =
     (if text = [] then []
      else
        let raw_splits = re_split [] text;
            (current, sentences) = split_loop raw_splits [] [];
            sentences =
              (if current \<noteq> []
               then sentences @ [strip (if length raw_splits mod 2 \<noteq> 0
                                        then current @ last raw_splits else current)]
               else if length raw_splits mod 2 \<noteq> 0
               then sentences @ [strip (last raw_splits)]
               else sentences)
        in filter (\<lambda>s. length s > 2) sentences)"

section \<open>JSON values and \<open>json.loads\<close>\<close>

text \<open>
  The values that \<open>json.loads\<close> returns. A Python \<open>dict\<close> keeps its keys in insertion order,
  each key once: an object is an association list with distinct keys. A \<open>float\<close> is kept
  exactly, as the decimal number \<open>m * 10 ^ e\<close> of its literal (\<open>JFloat m e\<close>); the only
  property of floats that the program looks at is whether the value is zero.
\<close>

datatype json =
    JNull
  | JBool bool
  | JInt int
  | JFloat int int
  | JNaN
  | JInfinity
  | JNegInfinity
  | JStr pystr
  | JArr "json list"
  | JObj "(pystr \<times> json) list"

text \<open>\<open>d[key] = v\<close> on an insertion-ordered dict.\<close>

fun dict_put :: "(pystr \<times> json) list \<Rightarrow> pystr \<Rightarrow> json \<Rightarrow> (pystr \<times> json) list" where
  "dict_put [] k v = [(k, v)]"
| "dict_put ((k', v') # d) k v = (if k' = k then (k, v) # d else (k', v') # dict_put d k v)"

text \<open>\<open>d.get(key, default)\<close>\<close>

definition dict_get :: "(pystr \<times> json) list \<Rightarrow> pystr \<Rightarrow> json \<Rightarrow> json" where
  "dict_get d k dflt = (case map_of d k of None \<Rightarrow> dflt | Some v \<Rightarrow> v)"

text \<open>
  The decoder follows CPython's \<open>json\<close> scanner: whitespace is space, tab, newline and
  carriage return; a literal control character inside a string is an error (strict mode);
  \<open>NaN\<close>, \<open>Infinity\<close> and \<open>-Infinity\<close> are accepted; a number is an \<open>int\<close> unless it has a
  fraction or an exponent; duplicate keys keep the last value. \<open>None\<close> stands for the
  \<open>JSONDecodeError\<close>. The interpreter's limits (recursion depth, the length of an integer
  literal) are outside the model.
\<close>

definition is_json_ws :: "nat \<Rightarrow> bool" where
  "is_json_ws c = (c = 32 \<or> c = 9 \<or> c = 10 \<or> c = 13)"

definition skip_ws :: "pystr \<Rightarrow> pystr" where
  "skip_ws s = dropWhile is_json_ws s"

definition is_digit :: "nat \<Rightarrow> bool" where
  "is_digit c = (48 \<le> c \<and> c \<le> 57)"

definition hexval :: "nat \<Rightarrow> nat option" where
  "hexval c = (if 48 \<le> c \<and> c \<le> 57 then Some (c - 48)
               else if 97 \<le> c \<and> c \<le> 102 then Some (c - 87)
               else if 65 \<le> c \<and> c \<le> 70 then Some (c - 55)
               else None)"

text \<open>The four hexadecimal digits of a \<open>\uXXXX\<close> escape, at the front of \<open>s\<close>.\<close>

definition decode_uXXXX :: "pystr \<Rightarrow> nat option" where
  "decode_uXXXX s =
     (case map hexval (take 4 s) of
        [Some a, Some b, Some c, Some d] \<Rightarrow> Some (((a * 16 + b) * 16 + c) * 16 + d)
      | _ \<Rightarrow> None)"

definition escape_char :: "nat \<Rightarrow> nat option" where
  "escape_char e =
     (if e = 34 then Some 34 else if e = 92 then Some 92 else if e = 47 then Some 47
      else if e = 98 then Some 8 else if e = 102 then Some 12 else if e = 110 then Some 10
      else if e = 114 then Some 13 else if e = 116 then Some 9 else None)"

text \<open>
  The body of a string, after its opening quote: the decoded string and the rest of the
  input after the closing quote. A high surrogate escape followed by a low surrogate
  escape is one code point.
\<close>

function scanstring :: "pystr \<Rightarrow> pystr \<Rightarrow> (pystr \<times> pystr) option" where
  "scanstring acc [] = None"
| "scanstring acc (c # cs) =
     (if c = 34 then Some (acc, cs)
      else if c = 92 then
        (case cs of
           [] \<Rightarrow> None
         | e # r \<Rightarrow>
             if e = 117 then
               (case decode_uXXXX r of
                  None \<Rightarrow> None
                | Some uni \<Rightarrow>
                    if 55296 \<le> uni \<and> uni \<le> 56319 \<and> take 2 (drop 4 r) = [92, 117] then
                      (case decode_uXXXX (drop 6 r) of
                         None \<Rightarrow> None
                       | Some uni2 \<Rightarrow>
                           if 56320 \<le> uni2 \<and> uni2 \<le> 57343
                           then scanstring
                                  (acc @ [65536 + ((uni - 55296) * 1024 + (uni2 - 56320))])
                                  (drop 10 r)
                           else scanstring (acc @ [uni]) (drop 4 r))
                    else scanstring (acc @ [uni]) (drop 4 r))
             else
               (case escape_char e of
                  None \<Rightarrow> None
                | Some ch \<Rightarrow> scanstring (acc @ [ch]) r))
      else if c < 32 then None
      else scanstring (acc @ [c]) cs)"
  by pat_completeness auto
termination
proof (relation "measure (\<lambda>(acc, s). length s)", goal_cases)
  case 1
  show ?case by simp
qed simp_all

definition digits_value :: "pystr \<Rightarrow> int" where
  "digits_value ds = foldl (\<lambda>a d. 10 * a + (int d - 48)) 0 ds"

text \<open>
  A number literal \<open>-?(0|[1-9][0-9]*)(\.[0-9]+)?([eE][-+]?[0-9]+)?\<close> at the front of \<open>s\<close>.
\<close>

definition parse_number :: "pystr \<Rightarrow> (json \<times> pystr) option" where
  "parse_number s =
     (let neg = (s \<noteq> [] \<and> hd s = 45);
          s1 = (if neg then tl s else s);
          ip = (if s1 \<noteq> [] \<and> hd s1 = 48 then [48] else takeWhile is_digit s1);
          s2 = drop (length ip) s1;
          fp = (case s2 of
                  d # f # r \<Rightarrow> if d = 46 \<and> is_digit f then takeWhile is_digit (f # r) else []
                | _ \<Rightarrow> []);
          s3 = (if fp = [] then s2 else drop (Suc (length fp)) s2);
          (has_exp, eneg, ep) =
             (case s3 of
                x # r \<Rightarrow>
                  if x = 101 \<or> x = 69 then
                    (let sgn = (r \<noteq> [] \<and> (hd r = 45 \<or> hd r = 43));
                         ds = takeWhile is_digit (if sgn then tl r else r)
                     in if ds = [] then (False, False, [])
                        else (True, r \<noteq> [] \<and> hd r = 45, (if sgn then [hd r] else []) @ ds))
                  else (False, False, [])
              | [] \<Rightarrow> (False, False, []));
          s4 = (if has_exp then drop (Suc (length ep)) s3 else s3);
          sign = (if neg then - 1 else 1)
      in if ip = [] then None
         else if fp = [] \<and> \<not> has_exp then Some (JInt (sign * digits_value ip), s4)
         else
           (let ev = digits_value (filter is_digit ep)
            in Some (JFloat (sign * digits_value (ip @ fp))
                       ((if eneg then - ev else ev) - int (length fp)), s4)))"

text \<open>
  The recursive descent over values, arrays and objects. \<open>parse_array\<close> and \<open>parse_object\<close>
  start at an element and at a key, with the elements read so far. The length of the
  first argument bounds the number of nested calls; \<open>json_loads\<close> gives it \<open>2 * len(s) + 1\<close>
  elements, which are never used up, since two successive calls read at least one
  character.
\<close>

fun parse_value :: "nat list \<Rightarrow> pystr \<Rightarrow> (json \<times> pystr) option"
  and parse_array :: "nat list \<Rightarrow> json list \<Rightarrow> pystr \<Rightarrow> (json \<times> pystr) option"
  and parse_object :: "nat list \<Rightarrow> (pystr \<times> json) list \<Rightarrow> pystr \<Rightarrow> (json \<times> pystr) option"
where
  "parse_value [] s = None"
| "parse_value (f # n) s =
     (case s of
        [] \<Rightarrow> None
      | c # cs \<Rightarrow>
          if c = 34 then
            (case scanstring [] cs of None \<Rightarrow> None | Some (str, r) \<Rightarrow> Some (JStr str, r))
          else if c = 123 then
            (case skip_ws cs of
               [] \<Rightarrow> None
             | x # r \<Rightarrow> if x = 125 then Some (JObj [], r) else parse_object n [] (x # r))
          else if c = 91 then
            (case skip_ws cs of
               [] \<Rightarrow> None
             | x # r \<Rightarrow> if x = 93 then Some (JArr [], r) else parse_array n [] (x # r))
          else if prefix (py ''null'') s then Some (JNull, drop 4 s)
          else if prefix (py ''true'') s then Some (JBool True, drop 4 s)
          else if prefix (py ''false'') s then Some (JBool False, drop 5 s)
          else if prefix (py ''NaN'') s then Some (JNaN, drop 3 s)
          else if prefix (py ''Infinity'') s then Some (JInfinity, drop 8 s)
          else if prefix (py ''-Infinity'') s then Some (JNegInfinity, drop 9 s)
          else parse_number s)"
| "parse_array [] acc s = None"
| "parse_array (f # n) acc s =
     (case parse_value n s of
        None \<Rightarrow> None
      | Some (v, r) \<Rightarrow>
          (case skip_ws r of
             [] \<Rightarrow> None
           | c # r' \<Rightarrow>
               if c = 93 then Some (JArr (acc @ [v]), r')
               else if c = 44 then parse_array n (acc @ [v]) (skip_ws r')
               else None))"
| "parse_object [] acc s = None"
| "parse_object (f # n) acc s =
     (case s of
        [] \<Rightarrow> None
      | q # cs \<Rightarrow>
          if q \<noteq> 34 then None
          else
            (case scanstring [] cs of
               None \<Rightarrow> None
             | Some (key, r) \<Rightarrow>
                 (case skip_ws r of
                    [] \<Rightarrow> None
                  | colon # r' \<Rightarrow>
                      if colon \<noteq> 58 then None
                      else
                        (case parse_value n (skip_ws r') of
                           None \<Rightarrow> None
                         | Some (v, r'') \<Rightarrow>
                             (case skip_ws r'' of
                                [] \<Rightarrow> None
                              | c # r3 \<Rightarrow>
                                  if c = 125 then Some (JObj (dict_put acc key v), r3)
                                  else if c = 44
                                  then parse_object n (dict_put acc key v) (skip_ws r3)
                                  else None)))))"

definition json_loads :: "pystr \<Rightarrow> json option" where
  "json_loads s =
     (case parse_value (0 # s @ s) (skip_ws s) of
        None \<Rightarrow> None
      | Some (v, r) \<Rightarrow> if skip_ws r = [] then Some v else None)"

section \<open>Python's dynamic operations on decoded values\<close>

text \<open>
  The service's reply is decoded JSON, so the values that reach the program are dynamically
  typed. Each operation below is the Python operation on such a value; the exception that
  Python raises is the \<open>Inl\<close> result.
\<close>

datatype py_error =
    TypeError
  | AttributeError
  | KeyError
  | IndexError
  | JSONDecodeError
  | FileNotFoundError
  | UnicodeEncodeError

text \<open>
  \<open>float(literal) == 0.0\<close>: the literal is zero, or it is so small that the nearest double
  is zero (at most half of the least subnormal \<open>2 ^ -1074\<close>).
\<close>

definition float_is_zero :: "int \<Rightarrow> int \<Rightarrow> bool" where
  "float_is_zero m e = (m = 0 \<or> (e < 0 \<and> \<bar>m\<bar> * 2 ^ 1075 \<le> 10 ^ nat (- e)))"

text \<open>\<open>bool(v)\<close>\<close>

fun truthy :: "json \<Rightarrow> bool" where
  "truthy JNull = False"
| "truthy (JBool b) = b"
| "truthy (JInt i) = (i \<noteq> 0)"
| "truthy (JFloat m e) = (\<not> float_is_zero m e)"
| "truthy JNaN = True"
| "truthy JInfinity = True"
| "truthy JNegInfinity = True"
| "truthy (JStr s) = (s \<noteq> [])"
| "truthy (JArr xs) = (xs \<noteq> [])"
| "truthy (JObj d) = (d \<noteq> [])"

text \<open>\<open>for t in v\<close>: the elements of a list, the characters of a string, the keys of a dict.\<close>

fun py_iter :: "json \<Rightarrow> py_error + json list" where
  "py_iter (JArr xs) = Inr xs"
| "py_iter (JStr s) = Inr (map (\<lambda>c. JStr [c]) s)"
| "py_iter (JObj d) = Inr (map (\<lambda>kv. JStr (fst kv)) d)"
| "py_iter v = Inl TypeError"

text \<open>\<open>k in t\<close> for a string \<open>k\<close>.\<close>

fun py_contains :: "pystr \<Rightarrow> json \<Rightarrow> py_error + bool" where
  "py_contains k (JObj d) = Inr (map_of d k \<noteq> None)"
| "py_contains k (JStr s) = Inr (is_substring k s)"
| "py_contains k (JArr xs) = Inr (JStr k \<in> set xs)"
| "py_contains k v = Inl TypeError"

text \<open>\<open>t[k]\<close> for a string \<open>k\<close>: only a dict can be indexed by a string.\<close>

fun py_getitem :: "json \<Rightarrow> pystr \<Rightarrow> py_error + json" where
  "py_getitem (JObj d) k = (case map_of d k of None \<Rightarrow> Inl KeyError | Some v \<Rightarrow> Inr v)"
| "py_getitem v k = Inl TypeError"

text \<open>\<open>v[i]\<close> for an integer \<open>i \<ge> 0\<close>. The keys of a decoded dict are strings, so \<open>d[i]\<close> is a \<open>KeyError\<close>.\<close>

fun py_index :: "json \<Rightarrow> nat \<Rightarrow> py_error + json" where
  "py_index (JArr xs) i = (if i < length xs then Inr (xs ! i) else Inl IndexError)"
| "py_index (JStr s) i = (if i < length s then Inr (JStr [s ! i]) else Inl IndexError)"
| "py_index (JObj d) i = Inl KeyError"
| "py_index v i = Inl TypeError"

text \<open>\<open>len(v)\<close>\<close>

fun py_len :: "json \<Rightarrow> py_error + nat" where
  "py_len (JArr xs) = Inr (length xs)"
| "py_len (JStr s) = Inr (length s)"
| "py_len (JObj d) = Inr (length d)"
| "py_len v = Inl TypeError"

text \<open>\<open>v.get(k)\<close>, with \<open>None\<close> for a missing key: only a dict has the method.\<close>

fun py_get :: "json \<Rightarrow> pystr \<Rightarrow> json \<Rightarrow> py_error + json" where
  "py_get (JObj d) k dflt = Inr (dict_get d k dflt)"
| "py_get v k dflt = Inl AttributeError"

text \<open>A list and a dict cannot be the key of a dict.\<close>

fun hashable :: "json \<Rightarrow> bool" where
  "hashable (JArr xs) = False"
| "hashable (JObj d) = False"
| "hashable v = True"

section \<open>Extracting the JSON payload (\<open>extract_json\<close> of both modules)\<close>

text \<open>
  \<open>"".join(ch for ch in text if ord(ch) >= 32 or ch in "\n\r\t")\<close>. On a string this keeps
  the characters that are not control characters. The value comes from the decoded
  envelope and need not be a string: over a list or a dict the generator yields the
  elements or keys, \<open>ord\<close> accepts only a string of length one, and any other value raises
  inside the \<open>try\<close>.
\<close>

definition keep_char :: "nat \<Rightarrow> bool" where
  "keep_char ch = (ch \<ge> 32 \<or> ch = 10 \<or> ch = 13 \<or> ch = 9)"

fun one_char :: "json \<Rightarrow> nat option" where
  "one_char (JStr [c]) = Some c"
| "one_char v = None"

definition clean_text :: "json \<Rightarrow> pystr option" where
  "clean_text text =
     (case py_iter text of
        Inl e \<Rightarrow> None
      | Inr chs \<Rightarrow>
          if list_all (\<lambda>ch. one_char ch \<noteq> None) chs
          then Some (filter keep_char (map (\<lambda>ch. the (one_char ch)) chs))
          else None)"

text \<open>
  \<open>re.search(r'(\{.*\}|\[.*\])', text, re.DOTALL)\<close>: the leftmost position that holds an
  opening brace with a closing brace somewhere after it, or an opening bracket with a
  closing bracket after it; the match runs to the last such closing character.
\<close>

definition up_to_last :: "nat \<Rightarrow> pystr \<Rightarrow> pystr" where
  "up_to_last x cs = rev (dropWhile (\<lambda>c. c \<noteq> x) (rev cs))"

fun search_span :: "pystr \<Rightarrow> pystr option" where
  "search_span [] = None"
| "search_span (c # cs) =
     (if c = 123 \<and> 125 \<in> set cs then Some (c # up_to_last 125 cs)
      else if c = 91 \<and> 93 \<in> set cs then Some (c # up_to_last 93 cs)
      else search_span cs)"

text \<open>
  \<open>re.sub(r',\s*\}', '}', s)\<close> and \<open>re.sub(r',\s*\]', ']', s)\<close>, with the closing character
  as a parameter: a comma, any whitespace and the closing character become the closing
  character.
\<close>

function sub_trailing_comma :: "nat \<Rightarrow> pystr \<Rightarrow> pystr" where
  "sub_trailing_comma cl [] = []"
| "sub_trailing_comma cl (c # cs) =
     (if c = 44 \<and> dropWhile is_space cs \<noteq> [] \<and> hd (dropWhile is_space cs) = cl
      then cl # sub_trailing_comma cl (tl (dropWhile is_space cs))
      else c # sub_trailing_comma cl cs)"
  by pat_completeness auto
termination
proof (relation "measure (\<lambda>(cl, s). length s)", goal_cases)
  case 1
  show ?case by simp
next
  case (2 cl c cs)
  have "length (tl (dropWhile is_space cs)) \<le> length cs"
    using length_dropWhile_le [of is_space cs] by simp
  then show ?case by simp
next
  case (3 cl c cs)
  show ?case by simp
qed

text \<open>\<open>main.extract_json\<close>: \<open>None\<close> is Python's \<open>None\<close>, returned also when anything raised.\<close>

definition main_extract_json :: "json \<Rightarrow> json option" where
  "main_extract_json text =
     (case clean_text text of
        None \<Rightarrow> None
      | Some text \<Rightarrow>
          (case search_span text of
             None \<Rightarrow> None
           | Some json_str \<Rightarrow>
               json_loads (sub_trailing_comma 93 (sub_trailing_comma 125 json_str))))"

text \<open>\<open>assemble.extract_json\<close>\<close>

definition assemble_extract_json :: "json \<Rightarrow> json option" where
  "assemble_extract_json text =
     (case clean_text text of
        None \<Rightarrow> None
      | Some text \<Rightarrow>
          (case search_span text of
             None \<Rightarrow> None
           | Some json_str \<Rightarrow> json_loads json_str))"

section \<open>The external translation service\<close>

text \<open>
  What one HTTP call yields: no response at all (connection failure, timeout, retries
  exhausted), or a status code and a body. The service is outside the program: the reply
  to the \<open>k\<close>-th call of a run is \<open>service k\<close>, with no assumption on it.
\<close>

datatype reply = No_response | Response nat pystr

datatype request =
    Translate "pystr list" pystr pystr
  | Refine "json list" pystr

type_synonym service = "nat \<Rightarrow> reply"

text \<open>
  The part of both callers between \<open>post\<close> and \<open>extract_json\<close>: \<open>raise_for_status()\<close>,
  \<open>response.json()\<close> and \<open>data.get("response", "{}")\<close>. \<open>None\<close> when one of them raises.
\<close>

definition response_text :: "reply \<Rightarrow> json option" where
  "response_text r =
     (case r of
        No_response \<Rightarrow> None
      | Response status body \<Rightarrow>
          if 400 \<le> status \<and> status < 600 then None
          else
            (case json_loads body of
               None \<Rightarrow> None
             | Some data \<Rightarrow>
                 (case py_get data (py ''response'') (JStr (py ''{}'')) of
                    Inl e \<Rightarrow> None
                  | Inr text \<Rightarrow> Some text)))"

section \<open>The batch translator (\<open>main.translate_sentence_batch\<close>)\<close>

text \<open>
  The value returned for a reply: \<open>result.get("translations", []) if result else []\<close>, and
  \<open>[]\<close> when anything inside the \<open>try\<close> raised. It is whatever the payload holds under
  \<open>"translations"\<close>, not necessarily a list.
\<close>

definition translations_of :: "reply \<Rightarrow> json" where
  "translations_of r =
     (case response_text r of
        None \<Rightarrow> JArr []
      | Some text \<Rightarrow>
          (case main_extract_json text of
             None \<Rightarrow> JArr []
           | Some result \<Rightarrow>
               if truthy result then
                 (case py_get result (py ''translations'') (JArr []) of
                    Inl e \<Rightarrow> JArr []
                  | Inr v \<Rightarrow> v)
               else JArr []))"


section \<open>The Document State and the world of a run\<close>

datatype block_type = Heading | Paragraph | Image

text \<open>A segment \<open>{"en": ..., "mn": ...}\<close>; the target text is whatever value was stored.\<close>

record segment =
  en :: pystr
  mn :: json

text \<open>A block of the persisted Document State; \<open>path\<close> is \<open>null\<close> for a text block.\<close>

record block =
  page :: nat
  btype :: block_type
  content :: "segment list"
  path :: "pystr option"

text \<open>
  A block as \<open>get_page_structure\<close> returns it for one page (the PDF parser itself is an
  external library): its type, and the text and sentences of a text block or the path of
  an image block.
\<close>

record page_block =
  pb_type :: block_type
  pb_text :: pystr
  pb_sentences :: "pystr list"
  pb_path :: "pystr option"

datatype log_line =
    Pdf_complete_skipping
  | Pdf_too_small_reprocessing
  | Refined_found_assembly_only
  | Refined_too_small
  | Structural_found
  | Stage1_already_done
  | Stage1_extracting
  | Stage1_complete nat
  | Patching
  | Patched nat
  | No_patches_needed
  | Stage3_assembling
  | Stage23_refining_assembling
  | Refining_chunks nat
  | Assembly_complete
  | Book_complete

text \<open>What the fixed-layout renderer is asked to draw for one block.\<close>

datatype pdf_op = Pdf_image pystr | Pdf_heading pystr | Pdf_paragraph pystr

text \<open>A chapter of the reflowable output, as registered in the book and its table of contents.\<close>

record epub_chapter =
  ch_title :: pystr
  ch_file_name :: pystr
  ch_content :: pystr

text \<open>What a run does to the outside, in order.\<close>

datatype event =
    Request request
  | Write_cache "block list"
  | Write_refined "block list"
  | Write_pdf "pdf_op list"
  | Write_epub "epub_chapter list"
  | Remove_pdf
  | Remove_refined
  | Log log_line

text \<open>
  A state file on disk: its size in bytes and the Document State it decodes to, if it
  decodes at all.
\<close>

record state_file =
  fsize :: nat
  fdoc :: "block list option"

text \<open>
  The three artifacts of one book (structural state, refined state, final PDF, of which
  only the size is read) and the events so far.
\<close>

record world =
  cache_file :: "state_file option"
  refined_file :: "state_file option"
  pdf_file :: "nat option"
  trace :: "event list"

text \<open>
  What the run reads from outside: the service, the pages of the source document, which
  image files exist, and the sizes in bytes of the files that the serialiser and the PDF
  renderer write.
\<close>

record env =
  service :: service
  pages :: "page_block list list"
  image_exists :: "pystr \<Rightarrow> bool"
  dump_size :: "block list \<Rightarrow> nat"
  pdf_size :: "block list \<Rightarrow> nat"

definition logline :: "log_line \<Rightarrow> world \<Rightarrow> world" where
  "logline l w = w\<lparr>trace := trace w @ [Log l]\<rparr>"

text \<open>The requests among the events, in order.\<close>

fun requests_of :: "event list \<Rightarrow> request list" where
  "requests_of [] = []"
| "requests_of (Request r # es) = r # requests_of es"
| "requests_of (e # es) = requests_of es"

text \<open>The number of calls made so far; the next call receives the reply with this index.\<close>

definition n_requests :: "world \<Rightarrow> nat" where
  "n_requests w = length (requests_of (trace w))"

text \<open>
  \<open>json.dump(data, f, ensure_ascii=False, indent=4)\<close> into a file opened with
  \<open>encoding="utf-8"\<close>. The text is written as it is, so a lone surrogate code point in
  any string of the state (the decoder accepts one from an escape in a reply) cannot be
  encoded: the write raises \<open>UnicodeEncodeError\<close> and the run ends there, with the file
  left truncated. Nothing else in a Document State fails to serialise.
\<close>

definition is_surrogate :: "nat \<Rightarrow> bool" where
  "is_surrogate c = (55296 \<le> c \<and> c \<le> 57343)"

definition str_encodable :: "pystr \<Rightarrow> bool" where
  "str_encodable s = list_all (\<lambda>c. is_surrogate c = False) s"

fun json_encodable :: "json \<Rightarrow> bool" where
  "json_encodable (JStr s) = str_encodable s"
| "json_encodable (JArr xs) = list_all json_encodable xs"
| "json_encodable (JObj d) = list_all (\<lambda>kv. str_encodable (fst kv) \<and> json_encodable (snd kv)) d"
| "json_encodable v = True"

definition segment_encodable :: "segment \<Rightarrow> bool" where
  "segment_encodable s = (str_encodable (en s) \<and> json_encodable (mn s))"

definition block_encodable :: "block \<Rightarrow> bool" where
  "block_encodable b =
     (list_all segment_encodable (content b)
      \<and> (case path b of None \<Rightarrow> True | Some p \<Rightarrow> str_encodable p))"

definition doc_encodable :: "block list \<Rightarrow> bool" where
  "doc_encodable d = list_all block_encodable d"

text \<open>The dump of the structural state file.\<close>

definition dump_cache :: "env \<Rightarrow> block list \<Rightarrow> world \<Rightarrow> py_error + world" where
  "dump_cache env d w =
     (if doc_encodable d then
        Inr (w\<lparr>cache_file := Some \<lparr>fsize = dump_size env d, fdoc = Some d\<rparr>,
               trace := trace w @ [Write_cache d]\<rparr>)
      else Inl UnicodeEncodeError)"

text \<open>
  \<open>translate_sentence_batch\<close> makes no request for an empty batch; otherwise it makes one
  request and returns what the reply yields.
\<close>

definition translate_sentence_batch ::
  "env \<Rightarrow> pystr list \<Rightarrow> pystr \<Rightarrow> pystr \<Rightarrow> world \<Rightarrow> json \<times> world" where
  "translate_sentence_batch env all_sentences book_title chapter_context w =
     (if all_sentences = [] then (JArr [], w)
      else (translations_of (service env (n_requests w)),
            w\<lparr>trace := trace w @ [Request (Translate all_sentences book_title chapter_context)]\<rparr>))"

section \<open>Stage 1 (\<open>main.process_book_stage1\<close>)\<close>

text \<open>
  \<open>mapping = {t["en"]: t["mn"] for t in translations if "en" in t and "mn" in t}\<close>, over the
  elements of \<open>translations\<close>. This line is outside any \<open>try\<close>.
\<close>

fun build_mapping :: "json list \<Rightarrow> (json \<rightharpoonup> json) \<Rightarrow> py_error + (json \<rightharpoonup> json)" where
  "build_mapping [] m = Inr m"
| "build_mapping (t # ts) m =
     (case py_contains (py ''en'') t of
        Inl e \<Rightarrow> Inl e
      | Inr has_en \<Rightarrow>
          if \<not> has_en then build_mapping ts m
          else
            (case py_contains (py ''mn'') t of
               Inl e \<Rightarrow> Inl e
             | Inr has_mn \<Rightarrow>
                 if \<not> has_mn then build_mapping ts m
                 else
                   (case py_getitem t (py ''en'') of
                      Inl e \<Rightarrow> Inl e
                    | Inr k \<Rightarrow>
                        (case py_getitem t (py ''mn'') of
                           Inl e \<Rightarrow> Inl e
                         | Inr v \<Rightarrow>
                             if hashable k then build_mapping ts (m(k \<mapsto> v))
                             else Inl TypeError))))"

text \<open>\<open>if mn and not mn.endswith(('.', '!', '?')): mn += "."\<close>\<close>

definition add_punc :: "json \<Rightarrow> py_error + json" where
  "add_punc v =
     (if truthy v then
        (case v of
           JStr s \<Rightarrow> Inr (JStr (if endswith_punc s then s else s @ py ''.''))
         | _ \<Rightarrow> Inl AttributeError)
      else Inr v)"

text \<open>The inner loop of \<open>flush_batch\<close> over the sentences of one block.\<close>

fun fill_sentences :: "(json \<rightharpoonup> json) \<Rightarrow> pystr list \<Rightarrow> py_error + segment list" where
  "fill_sentences mapping [] = Inr []"
| "fill_sentences mapping (s # ss) =
     (case add_punc (case mapping (JStr s) of None \<Rightarrow> JStr [] | Some v \<Rightarrow> v) of
        Inl e \<Rightarrow> Inl e
      | Inr v \<Rightarrow>
          (case fill_sentences mapping ss of
             Inl e \<Rightarrow> Inl e
           | Inr segs \<Rightarrow> Inr (\<lparr>en = s, mn = v\<rparr> # segs)))"

text \<open>The outer loop of \<open>flush_batch\<close>: each pending block is appended to \<open>full_structure\<close>.\<close>

fun flush_blocks ::
  "(json \<rightharpoonup> json) \<Rightarrow> (nat \<times> page_block) list \<Rightarrow> block list \<Rightarrow> py_error + block list" where
  "flush_blocks mapping [] full = Inr full"
| "flush_blocks mapping ((pg, b) # bs) full =
     (case fill_sentences mapping (pb_sentences b) of
        Inl e \<Rightarrow> Inl e
      | Inr segs \<Rightarrow>
          flush_blocks mapping bs
            (full @ [\<lparr>page = pg, btype = pb_type b, content = segs, path = pb_path b\<rparr>]))"

text \<open>The variables of \<open>process_book_stage1\<close> that \<open>flush_batch\<close> closes over, and the world.\<close>

record stage1 =
  full_structure :: "block list"
  current_chapter :: pystr
  pending_sentences :: "pystr list"
  pending_blocks :: "(nat \<times> page_block) list"
  s_world :: world

definition flush_batch :: "env \<Rightarrow> pystr \<Rightarrow> stage1 \<Rightarrow> py_error + stage1" where
  "flush_batch env book_name st =
     (if pending_sentences st = [] then Inr st
      else
        (let (translations, w) =
               translate_sentence_batch env (pending_sentences st) book_name
                 (current_chapter st) (s_world st)
         in case py_iter translations of
              Inl e \<Rightarrow> Inl e
            | Inr ts \<Rightarrow>
                (case build_mapping ts Map.empty of
                   Inl e \<Rightarrow> Inl e
                 | Inr mapping \<Rightarrow>
                     (case flush_blocks mapping (pending_blocks st) (full_structure st) of
                        Inl e \<Rightarrow> Inl e
                      | Inr full \<Rightarrow>
                          Inr (st\<lparr>full_structure := full, pending_sentences := [],
                                  pending_blocks := [], s_world := w\<rparr>)))))"

text \<open>The loop over the blocks of page \<open>page_num\<close> (counted from 0).\<close>

fun stage1_blocks ::
  "env \<Rightarrow> pystr \<Rightarrow> nat \<Rightarrow> page_block list \<Rightarrow> stage1 \<Rightarrow> py_error + stage1" where
  "stage1_blocks env book_name page_num [] st = Inr st"
| "stage1_blocks env book_name page_num (b # bs) st =
     (let st = (if pb_type b = Heading then st\<lparr>current_chapter := pb_text b\<rparr> else st)
      in if pb_type b = Image then
           (case pb_path b of
              None \<Rightarrow> Inl KeyError
            | Some p \<Rightarrow>
                stage1_blocks env book_name page_num bs
                  (st\<lparr>full_structure := full_structure st @
                        [\<lparr>page = page_num + 1, btype = Image, content = [], path = Some p\<rparr>]\<rparr>))
         else
           (let st = st\<lparr>pending_blocks := pending_blocks st @ [(page_num + 1, b)],
                        pending_sentences := pending_sentences st @ pb_sentences b\<rparr>
            in if length (pending_sentences st) \<ge> 30 then
                 (case flush_batch env book_name st of
                    Inl e \<Rightarrow> Inl e
                  | Inr st \<Rightarrow>
                      (case dump_cache env (full_structure st) (s_world st) of
                         Inl e \<Rightarrow> Inl e
                       | Inr w \<Rightarrow>
                           stage1_blocks env book_name page_num bs (st\<lparr>s_world := w\<rparr>)))
               else stage1_blocks env book_name page_num bs st))"

fun stage1_pages ::
  "env \<Rightarrow> pystr \<Rightarrow> nat \<Rightarrow> page_block list list \<Rightarrow> stage1 \<Rightarrow> py_error + stage1" where
  "stage1_pages env book_name page_num [] st = Inr st"
| "stage1_pages env book_name page_num (p # ps) st =
     (case stage1_blocks env book_name page_num p st of
        Inl e \<Rightarrow> Inl e
      | Inr st \<Rightarrow> stage1_pages env book_name (Suc page_num) ps st)"

text \<open>
  \<open>process_book_stage1\<close>: it returns at once when the structural state file exists, whatever
  its size.
\<close>

definition process_book_stage1 :: "env \<Rightarrow> pystr \<Rightarrow> world \<Rightarrow> py_error + world" where
  "process_book_stage1 env book_name w =
     (if cache_file w \<noteq> None then Inr (logline Stage1_already_done w)
      else
        (case stage1_pages env book_name 0 (pages env)
                \<lparr>full_structure = [], current_chapter = py ''Unknown'',
                 pending_sentences = [], pending_blocks = [],
                 s_world = logline Stage1_extracting w\<rparr> of
           Inl e \<Rightarrow> Inl e
         | Inr st \<Rightarrow>
             (case flush_batch env book_name st of
                Inl e \<Rightarrow> Inl e
              | Inr st \<Rightarrow>
                  (case dump_cache env (full_structure st) (s_world st) of
                     Inl e \<Rightarrow> Inl e
                   | Inr w \<Rightarrow>
                       Inr (logline (Stage1_complete (length (full_structure st))) w)))))"

section \<open>The Patcher (\<open>main.patch_missing_translations\<close>)\<close>

text \<open>\<open>not item.get("mn") or len(item["mn"]) < 3\<close>\<close>

definition needs_patch :: "segment \<Rightarrow> py_error + bool" where
  "needs_patch item =
     (if \<not> truthy (mn item) then Inr True
      else (case py_len (mn item) of Inl e \<Rightarrow> Inl e | Inr n \<Rightarrow> Inr (n < 3)))"

text \<open>
  What becomes of the returned value \<open>res\<close>: when \<open>res and res[0].get("mn")\<close> holds, the new
  target text \<open>res[0]["mn"]\<close>, with a full stop appended unless it ends with terminal
  punctuation; \<open>None\<close> when the condition fails (no patch).
\<close>

definition patch_value :: "json \<Rightarrow> py_error + json option" where
  "patch_value res =
     (if \<not> truthy res then Inr None
      else
        (case py_index res 0 of
           Inl e \<Rightarrow> Inl e
         | Inr r0 \<Rightarrow>
             (case py_get r0 (py ''mn'') JNull of
                Inl e \<Rightarrow> Inl e
              | Inr v \<Rightarrow>
                  if truthy v then
                    (case v of
                       JStr s \<Rightarrow> Inr (Some (JStr (if endswith_punc s then s else s @ py ''.'')))
                     | _ \<Rightarrow> Inl AttributeError)
                  else Inr None)))"

text \<open>
  The loop over the items of one block \<open>b\<close>. \<open>pre\<close> and \<open>post\<close> are the blocks before and
  after it, \<open>done\<close> the items already visited: after a patch the whole of \<open>data\<close>, as
  mutated so far, is written. \<open>cnt\<close> is \<open>modified_count\<close>.
\<close>

fun patch_content ::
  "env \<Rightarrow> pystr \<Rightarrow> block list \<Rightarrow> block \<Rightarrow> block list \<Rightarrow> segment list \<Rightarrow> segment list \<Rightarrow>
     nat \<times> world \<Rightarrow> py_error + (segment list \<times> nat \<times> world)" where
  "patch_content env title pre b post done [] (cnt, w) = Inr (done, cnt, w)"
| "patch_content env title pre b post done (item # items) (cnt, w) =
     (case needs_patch item of
        Inl e \<Rightarrow> Inl e
      | Inr needy \<Rightarrow>
          if \<not> needy then patch_content env title pre b post (done @ [item]) items (cnt, w)
          else
            (let (res, w) = translate_sentence_batch env [en item] title (py ''Patching'') w
             in case patch_value res of
                  Inl e \<Rightarrow> Inl e
                | Inr None \<Rightarrow>
                    patch_content env title pre b post (done @ [item]) items (cnt, w)
                | Inr (Some v) \<Rightarrow>
                    (let item' = item\<lparr>mn := v\<rparr>;
                         data = pre @ [b\<lparr>content := done @ [item'] @ items\<rparr>] @ post
                     in case dump_cache env data w of
                          Inl e \<Rightarrow> Inl e
                        | Inr w \<Rightarrow>
                            patch_content env title pre b post (done @ [item']) items
                              (cnt + 1, w))))"

fun patch_blocks ::
  "env \<Rightarrow> pystr \<Rightarrow> block list \<Rightarrow> block list \<Rightarrow> nat \<times> world \<Rightarrow>
     py_error + (block list \<times> nat \<times> world)" where
  "patch_blocks env title pre [] (cnt, w) = Inr (pre, cnt, w)"
| "patch_blocks env title pre (b # bs) (cnt, w) =
     (if btype b = Paragraph \<or> btype b = Heading then
        (case patch_content env title pre b bs [] (content b) (cnt, w) of
           Inl e \<Rightarrow> Inl e
         | Inr (c, cnt, w) \<Rightarrow> patch_blocks env title (pre @ [b\<lparr>content := c\<rparr>]) bs (cnt, w))
      else patch_blocks env title (pre @ [b]) bs (cnt, w))"

text \<open>
  \<open>patch_missing_translations\<close> reads the structural state file and returns \<open>data\<close>;
  \<open>modified_count\<close> only goes into the log.
\<close>

definition patch_missing_translations ::
  "env \<Rightarrow> pystr \<Rightarrow> world \<Rightarrow> py_error + (block list \<times> world)" where
  "patch_missing_translations env book_title w =
     (case cache_file (logline Patching w) of
        None \<Rightarrow> Inl FileNotFoundError
      | Some f \<Rightarrow>
          (case fdoc f of
             None \<Rightarrow> Inl JSONDecodeError
           | Some data \<Rightarrow>
               (case patch_blocks env book_title [] data (0, logline Patching w) of
                  Inl e \<Rightarrow> Inl e
                | Inr (data, cnt, w) \<Rightarrow>
                    Inr (data, logline (if cnt > 0 then Patched cnt else No_patches_needed) w))))"

section \<open>Stage 2: the Refiner (\<open>assemble.refine_chunk\<close>, \<open>assemble.refine_narrative_chunked\<close>)\<close>

text \<open>\<open>str(n)\<close> for a natural number.\<close>

function dec_nat :: "nat \<Rightarrow> pystr" where
  "dec_nat n = (if n < 10 then [48 + n] else dec_nat (n div 10) @ [48 + n mod 10])"
  by pat_completeness auto
termination
  by (relation "measure id") auto

text \<open>
  \<open>f"{v}"\<close>. A string is inserted as it is. For the other values the exact text (Python's
  \<open>repr\<close> of floats, lists and dicts) is not reproduced: the Refiner only tests whether the
  whole input is blank, and the text of a value that is not a string never is.
\<close>

fun py_format :: "json \<Rightarrow> pystr" where
  "py_format (JStr s) = s"
| "py_format JNull = py ''None''"
| "py_format (JBool b) = (if b then py ''True'' else py ''False'')"
| "py_format (JInt i) = (if i < 0 then py ''-'' else []) @ dec_nat (nat \<bar>i\<bar>)"
| "py_format (JFloat m e) = py ''<float>''"
| "py_format JNaN = py ''nan''"
| "py_format JInfinity = py ''inf''"
| "py_format JNegInfinity = py ''-inf''"
| "py_format (JArr xs) = py ''[...]''"
| "py_format (JObj d) = py ''{...}''"

definition input_text :: "block list \<Rightarrow> pystr" where
  "input_text blocks_chunk =
     concat (map (\<lambda>b. concat (map (\<lambda>item. py_format (mn item) @ [10]) (content b)))
       blocks_chunk)"

text \<open>
  The \<open>try\<close> block up to the loop: \<open>refined_list = result.get("refined_mn", [])\<close>; \<open>None\<close> when
  a step raises (also \<open>result\<close> being \<open>None\<close> or a list, which have no \<open>get\<close>).
\<close>

definition refined_list_of :: "reply \<Rightarrow> json option" where
  "refined_list_of r =
     (case response_text r of
        None \<Rightarrow> None
      | Some text \<Rightarrow>
          (case assemble_extract_json text of
             None \<Rightarrow> None
           | Some result \<Rightarrow>
               (case py_get result (py ''refined_mn'') (JArr []) of
                  Inl e \<Rightarrow> None
                | Inr v \<Rightarrow> Some v)))"

text \<open>
  The loop that maps the refined text back, over the items of one block and over the
  blocks of the chunk. The items are mutated in place, so the loop returns the items as
  they are when it ends or raises, the index \<open>idx\<close>, and the exception if one was raised.
\<close>

fun assign_items ::
  "json \<Rightarrow> nat \<Rightarrow> segment list \<Rightarrow> segment list \<times> nat \<times> py_error option" where
  "assign_items refined_list idx [] = ([], idx, None)"
| "assign_items refined_list idx (item # items) =
     (case py_len refined_list of
        Inl e \<Rightarrow> (item # items, idx, Some e)
      | Inr n \<Rightarrow>
          if idx < n then
            (case py_index refined_list idx of
               Inl e \<Rightarrow> (item # items, idx, Some e)
             | Inr v \<Rightarrow>
                 (let (items', idx', err) = assign_items refined_list (idx + 1) items
                  in (item\<lparr>mn := v\<rparr> # items', idx', err)))
          else
            (let (items', idx', err) = assign_items refined_list idx items
             in (item # items', idx', err)))"

fun assign_blocks ::
  "json \<Rightarrow> nat \<Rightarrow> block list \<Rightarrow> block list \<times> nat \<times> py_error option" where
  "assign_blocks refined_list idx [] = ([], idx, None)"
| "assign_blocks refined_list idx (b # bs) =
     (let (items', idx', err) = assign_items refined_list idx (content b)
      in case err of
           Some e \<Rightarrow> (b\<lparr>content := items'\<rparr> # bs, idx', Some e)
         | None \<Rightarrow>
             (let (bs', idx'', err') = assign_blocks refined_list idx' bs
              in (b\<lparr>content := items'\<rparr> # bs', idx'', err')))"

text \<open>
  \<open>refine_chunk\<close> returns \<open>blocks_chunk\<close> on every path, mutated as far as the loop got. It
  makes no request for an empty chunk or a blank input.
\<close>

definition refine_chunk :: "env \<Rightarrow> pystr \<Rightarrow> block list \<Rightarrow> world \<Rightarrow> block list \<times> world" where
  "refine_chunk env book_title blocks_chunk w =
     (if blocks_chunk = [] then (blocks_chunk, w)
      else if strip (input_text blocks_chunk) = [] then (blocks_chunk, w)
      else
        (let w' = w\<lparr>trace := trace w @
                     [Request (Refine (map mn (concat (map content blocks_chunk))) book_title)]\<rparr>
         in case refined_list_of (service env (n_requests w)) of
              None \<Rightarrow> (blocks_chunk, w')
            | Some refined_list \<Rightarrow> (fst (assign_blocks refined_list 0 blocks_chunk), w')))"

text \<open>\<open>b["type"] in ["paragraph", "heading"] and b["content"]\<close>\<close>

definition is_translatable :: "block \<Rightarrow> bool" where
  "is_translatable b = ((btype b = Paragraph \<or> btype b = Heading) \<and> content b \<noteq> [])"

text \<open>The slices \<open>xs[i:i + n]\<close> for \<open>i\<close> in \<open>range(0, len(xs), n)\<close>.\<close>

function chunked :: "nat \<Rightarrow> 'a list \<Rightarrow> 'a list list" where
  "chunked n xs = (if n = 0 \<or> xs = [] then [] else take n xs # chunked n (drop n xs))"
  by pat_completeness auto
termination
  by (relation "measure (\<lambda>(n, xs). length xs)") auto

text \<open>The loop over the chunks; the refined chunks are returned one after the other.\<close>

fun refine_chunks :: "env \<Rightarrow> pystr \<Rightarrow> block list list \<Rightarrow> world \<Rightarrow> block list \<times> world" where
  "refine_chunks env book_title [] w = ([], w)"
| "refine_chunks env book_title (chunk # chunks) w =
     (let (chunk', w) = refine_chunk env book_title chunk w;
          (rest, w) = refine_chunks env book_title chunks w
      in (chunk' @ rest, w))"

text \<open>
  The blocks of \<open>translatable_blocks\<close> are the very objects of \<open>blocks\<close>, so mutating them
  changes \<open>blocks\<close>: the refined blocks take the places of the translatable ones, in order.
\<close>

fun put_back :: "block list \<Rightarrow> block list \<Rightarrow> block list" where
  "put_back [] rs = []"
| "put_back (b # bs) rs =
     (if is_translatable b then
        (case rs of [] \<Rightarrow> b # put_back bs [] | r # rs' \<Rightarrow> r # put_back bs rs')
      else b # put_back bs rs)"

definition refine_narrative_chunked ::
  "env \<Rightarrow> pystr \<Rightarrow> block list \<Rightarrow> world \<Rightarrow> block list \<times> world" where
  "refine_narrative_chunked env book_title blocks w =
     (if blocks = [] then ([], w)
      else
        (let translatable_blocks = filter is_translatable blocks
         in if translatable_blocks = [] then (blocks, w)
            else
              (let chunk_size = 15;
                   total_chunks = (length translatable_blocks + chunk_size - 1) div chunk_size;
                   (refined, w) =
                      refine_chunks env book_title (chunked chunk_size translatable_blocks)
                        (logline (Refining_chunks total_chunks) w)
               in (put_back blocks refined, w))))"

section \<open>Stage 3: the Assembler (\<open>assemble.assemble_pdf\<close>, \<open>assemble.assemble_epub\<close>)\<close>

text \<open>
  \<open>" ".join([item["mn"] for item in block["content"] if item.get("mn")])\<close>: a truthy target
  text that is not a string makes \<open>join\<close> raise.
\<close>

fun join_sp :: "pystr list \<Rightarrow> pystr" where
  "join_sp [] = []"
| "join_sp [s] = s"
| "join_sp (s # t # ss) = s @ [32] @ join_sp (t # ss)"

fun str_of :: "json \<Rightarrow> pystr option" where
  "str_of (JStr s) = Some s"
| "str_of v = None"

definition join_mn :: "segment list \<Rightarrow> py_error + pystr" where
  "join_mn items =
     (let vs = filter truthy (map mn items)
      in if list_all (\<lambda>v. str_of v \<noteq> None) vs
         then Inr (join_sp (map (\<lambda>v. the (str_of v)) vs))
         else Inl TypeError)"

text \<open>
  The fixed-layout renderer, up to the calls into the PDF library: what it asks the
  library to draw, block by block.
\<close>

fun pdf_ops :: "env \<Rightarrow> block list \<Rightarrow> py_error + pdf_op list" where
  "pdf_ops env [] = Inr []"
| "pdf_ops env (b # bs) =
     (if btype b = Image then
        (case path b of
           None \<Rightarrow> Inl TypeError
         | Some p \<Rightarrow>
             (case pdf_ops env bs of
                Inl e \<Rightarrow> Inl e
              | Inr ops \<Rightarrow> Inr ((if image_exists env p then [Pdf_image p] else []) @ ops)))
      else
        (case join_mn (content b) of
           Inl e \<Rightarrow> Inl e
         | Inr combined_text \<Rightarrow>
             (let combined_text =
                    (if combined_text = [] then join_sp (map en (content b)) else combined_text)
              in case pdf_ops env bs of
                   Inl e \<Rightarrow> Inl e
                 | Inr ops \<Rightarrow>
                     Inr ((if btype b = Heading then Pdf_heading combined_text
                           else Pdf_paragraph combined_text) # ops))))"

definition assemble_pdf :: "env \<Rightarrow> block list \<Rightarrow> world \<Rightarrow> py_error + world" where
  "assemble_pdf env book_data w =
     (case pdf_ops env book_data of
        Inl e \<Rightarrow> Inl e
      | Inr ops \<Rightarrow>
          Inr (w\<lparr>pdf_file := Some (pdf_size env book_data), trace := trace w @ [Write_pdf ops]\<rparr>))"

text \<open>\<open>os.path.basename\<close>\<close>

definition basename :: "pystr \<Rightarrow> pystr" where
  "basename p = rev (takeWhile (\<lambda>c. c \<noteq> 47) (rev p))"

text \<open>
  The body of the loop of \<open>assemble_epub\<close> (with \<open>ebooklib\<close> installed) for the block
  \<open>b\<close> at index \<open>i\<close>. The state is the list \<open>chapters\<close>, the title and file name of
  \<open>current_chapter\<close> (\<open>None\<close> before the first chapter) and \<open>current_content\<close>.
\<close>

type_synonym epub_state = "epub_chapter list \<times> (pystr \<times> pystr) option \<times> pystr"

definition epub_step :: "env \<Rightarrow> nat \<Rightarrow> block \<Rightarrow> epub_state \<Rightarrow> py_error + epub_state" where
  "epub_step env i b st =
     (case st of (chapters, cur_chapter, cur_content) \<Rightarrow>
        if btype b = Image then
          (case path b of
             None \<Rightarrow> Inl TypeError
           | Some p \<Rightarrow>
               Inr (chapters, cur_chapter,
                    if image_exists env p
                    then cur_content @ py ''<div><img src=\"images/'' @ basename p
                           @ py ''\" /></div>''
                    else cur_content))
        else if btype b = Heading \<or> i = 0 then
          (let chapters =
                 (case cur_chapter of
                    None \<Rightarrow> chapters
                  | Some (t, f) \<Rightarrow>
                      chapters @ [\<lparr>ch_title = t, ch_file_name = f, ch_content = cur_content\<rparr>])
           in case join_mn (content b) of
                Inl e \<Rightarrow> Inl e
              | Inr joined \<Rightarrow>
                  (let title = (if joined = [] then py ''Chapter'' else joined)
                   in Inr (chapters,
                           Some (title, py ''chap_'' @ dec_nat (length chapters) @ py ''.xhtml''),
                           py ''<h1>'' @ title @ py ''</h1>'')))
        else
          (case join_mn (content b) of
             Inl e \<Rightarrow> Inl e
           | Inr text \<Rightarrow>
               Inr (chapters, cur_chapter,
                    if text \<noteq> [] then cur_content @ py ''<p>'' @ text @ py ''</p>''
                    else cur_content)))"

text \<open>\<open>for i, block in enumerate(book_data)\<close>\<close>

fun epub_blocks :: "env \<Rightarrow> nat \<Rightarrow> block list \<Rightarrow> epub_state \<Rightarrow> py_error + epub_state" where
  "epub_blocks env i [] st = Inr st"
| "epub_blocks env i (b # bs) st =
     (case epub_step env i b st of
        Inl e \<Rightarrow> Inl e
      | Inr st' \<Rightarrow> epub_blocks env (i + 1) bs st')"

text \<open>\<open>assemble_epub\<close>: the chapters registered in the book, which are its table of contents.\<close>

definition assemble_epub :: "env \<Rightarrow> block list \<Rightarrow> py_error + epub_chapter list" where
  "assemble_epub env book_data =
     (case epub_blocks env 0 book_data ([], None, []) of
        Inl e \<Rightarrow> Inl e
      | Inr (chapters, cur_chapter, cur_content) \<Rightarrow>
          Inr (case cur_chapter of
                 None \<Rightarrow> chapters
               | Some (t, f) \<Rightarrow>
                   chapters @ [\<lparr>ch_title = t, ch_file_name = f, ch_content = cur_content\<rparr>]))"

text \<open>The dump of the refined state file, with the same failure as for the structural state.\<close>

definition dump_refined :: "env \<Rightarrow> block list \<Rightarrow> world \<Rightarrow> py_error + world" where
  "dump_refined env d w =
     (if doc_encodable d then
        Inr (w\<lparr>refined_file := Some \<lparr>fsize = dump_size env d, fdoc = Some d\<rparr>,
               trace := trace w @ [Write_refined d]\<rparr>)
      else Inl UnicodeEncodeError)"

text \<open>\<open>assemble.process_single_book\<close>: refine, save the refined state, assemble.\<close>

definition assemble_process_single_book ::
  "env \<Rightarrow> pystr \<Rightarrow> block list \<Rightarrow> world \<Rightarrow> py_error + world" where
  "assemble_process_single_book env book_name book_data w =
     (let (refined_data, w) = refine_narrative_chunked env book_name book_data w
      in case dump_refined env refined_data w of
           Inl e \<Rightarrow> Inl e
         | Inr w \<Rightarrow>
             (case assemble_pdf env refined_data w of
                Inl e \<Rightarrow> Inl e
              | Inr w \<Rightarrow>
                  (case assemble_epub env refined_data of
                     Inl e \<Rightarrow> Inl e
                   | Inr chapters \<Rightarrow>
                       Inr (logline Assembly_complete
                              (w\<lparr>trace := trace w @ [Write_epub chapters]\<rparr>)))))"

section \<open>The pipeline driver (\<open>main.process_single_book\<close>)\<close>

text \<open>\<open>is_valid_file\<close>, on the size of the file if it exists.\<close>

definition is_valid_file :: "nat option \<Rightarrow> nat \<Rightarrow> bool" where
  "is_valid_file sz min_size = (case sz of None \<Rightarrow> False | Some n \<Rightarrow> n > min_size)"

text \<open>The steps after the two early exits: check 3, the Patcher, stages 2 and 3.\<close>

definition from_structural :: "env \<Rightarrow> pystr \<Rightarrow> pystr \<Rightarrow> world \<Rightarrow> py_error + world" where
  "from_structural env book_name safe_name w =
     (case (if \<not> is_valid_file (map_option fsize (cache_file w)) 1000
            then process_book_stage1 env book_name w
            else Inr (logline Structural_found w)) of
        Inl e \<Rightarrow> Inl e
      | Inr w \<Rightarrow>
          (case patch_missing_translations env book_name w of
             Inl e \<Rightarrow> Inl e
           | Inr (book_data, w) \<Rightarrow>
               (case assemble_process_single_book env safe_name book_data
                       (logline Stage23_refining_assembling w) of
                  Inl e \<Rightarrow> Inl e
                | Inr w \<Rightarrow> Inr (logline Book_complete w))))"

text \<open>The steps from check 2 on.\<close>

definition from_refined :: "env \<Rightarrow> pystr \<Rightarrow> pystr \<Rightarrow> world \<Rightarrow> py_error + world" where
  "from_refined env book_name safe_name w =
     (if is_valid_file (map_option fsize (refined_file w)) 1000 then
        (case refined_file w of
           None \<Rightarrow> Inl FileNotFoundError
         | Some f \<Rightarrow>
             (case fdoc f of
                None \<Rightarrow> Inl JSONDecodeError
              | Some book_data \<Rightarrow>
                  (case assemble_pdf env book_data
                          (logline Stage3_assembling (logline Refined_found_assembly_only w)) of
                     Inl e \<Rightarrow> Inl e
                   | Inr w \<Rightarrow>
                       (case assemble_epub env book_data of
                          Inl e \<Rightarrow> Inl e
                        | Inr chapters \<Rightarrow>
                            Inr (logline Book_complete
                                   (w\<lparr>trace := trace w @ [Write_epub chapters]\<rparr>))))))
      else if refined_file w \<noteq> None then
        from_structural env book_name safe_name
          ((logline Refined_too_small w)
             \<lparr>refined_file := None, trace := trace (logline Refined_too_small w) @ [Remove_refined]\<rparr>)
      else from_structural env book_name safe_name w)"

definition process_single_book :: "env \<Rightarrow> pystr \<Rightarrow> pystr \<Rightarrow> world \<Rightarrow> py_error + world" where
  "process_single_book env book_name safe_name w =
     (if is_valid_file (pdf_file w) 10000 then Inr (logline Pdf_complete_skipping w)
      else if pdf_file w \<noteq> None then
        from_refined env book_name safe_name
          ((logline Pdf_too_small_reprocessing w)
             \<lparr>pdf_file := None,
              trace := trace (logline Pdf_too_small_reprocessing w) @ [Remove_pdf]\<rparr>)
      else from_refined env book_name safe_name w)"

section \<open>Notions used in the statements\<close>

text \<open>
  A comma followed, after any whitespace, by the closing character \<open>cl\<close>: what
  \<open>re.sub(r',\s*\}', ...)\<close> looks for.
\<close>

fun has_trailing_comma :: "nat \<Rightarrow> pystr \<Rightarrow> bool" where
  "has_trailing_comma cl [] = False"
| "has_trailing_comma cl (c # cs) =
     ((c = 44 \<and> dropWhile is_space cs \<noteq> [] \<and> hd (dropWhile is_space cs) = cl)
      \<or> has_trailing_comma cl cs)"

text \<open>
  The same on the text as it is given to \<open>extract_json\<close>, before the control characters
  are deleted: a comma followed, after any run of whitespace and of characters that
  \<open>extract_json\<close> deletes, by the closing character \<open>cl\<close>.
\<close>

definition space_or_deleted :: "nat \<Rightarrow> bool" where
  "space_or_deleted x = (is_space x \<or> keep_char x = False)"

fun raw_trailing_comma :: "nat \<Rightarrow> pystr \<Rightarrow> bool" where
  "raw_trailing_comma cl [] = False"
| "raw_trailing_comma cl (c # cs) =
     ((c = 44 \<and> dropWhile space_or_deleted cs \<noteq> []
       \<and> hd (dropWhile space_or_deleted cs) = cl)
      \<or> raw_trailing_comma cl cs)"

text \<open>
  A stored target text is in order when it is a string that is empty or ends with one of
  \<open>.\<close>, \<open>!\<close>, \<open>?\<close>; a stored value that is not a string is in order when it is falsy (the
  segment counts as untranslated).
\<close>

fun terminal_ok :: "json \<Rightarrow> bool" where
  "terminal_ok (JStr s) = (s = [] \<or> is_punc (last s))"
| "terminal_ok v = (\<not> truthy v)"

definition all_terminal_ok :: "block list \<Rightarrow> bool" where
  "all_terminal_ok d = list_all (\<lambda>b. list_all (\<lambda>s. terminal_ok (mn s)) (content b)) d"

text \<open>A segment after the Patcher: untouched, or patched with a non-empty text that is in order.\<close>

definition same_or_patched :: "segment \<Rightarrow> segment \<Rightarrow> bool" where
  "same_or_patched s s' =
     (s' = s \<or> (en s' = en s \<and> truthy (mn s') \<and> terminal_ok (mn s')))"

text \<open>
  The Patcher as the specification words it. A segment needs a patch when its target text
  is empty (falsy) or shorter than 3 characters; the segments that need one are taken in
  the order of the Document State.
\<close>

definition needy :: "segment \<Rightarrow> bool" where
  "needy s = (needs_patch s = Inr True)"

definition needy_segments :: "block list \<Rightarrow> segment list" where
  "needy_segments data = filter needy (concat (map content data))"


text \<open>The single-sentence request for a segment.\<close>

definition patch_request :: "pystr \<Rightarrow> segment \<Rightarrow> request" where
  "patch_request title s = Translate [en s] title (py ''Patching'')"

text \<open>
  The patch that a reply yields, if any; a reply that yields one; and the number of such
  replies among \<open>n\<close> replies from index \<open>k\<close> on.
\<close>

definition patch_of :: "reply \<Rightarrow> json option" where
  "patch_of r = (case patch_value (translations_of r) of Inr (Some v) \<Rightarrow> Some v | _ \<Rightarrow> None)"

definition is_patch :: "reply \<Rightarrow> bool" where
  "is_patch r = (patch_of r \<noteq> None)"

fun count_patches :: "service \<Rightarrow> nat \<Rightarrow> nat \<Rightarrow> nat" where
  "count_patches svc k 0 = 0"
| "count_patches svc k (Suc n) = (if is_patch (svc k) then 1 else 0) + count_patches svc (Suc k) n"

text \<open>
  The Document State after the replies with an index below \<open>lim\<close> have been used. The
  segments that need a patch take the replies in order, the first of them the reply \<open>k\<close>:
  a segment whose reply yields a patch and has an index below \<open>lim\<close> holds the patch as its
  target text, every other segment is as it was.
\<close>

fun patched_segments :: "service \<Rightarrow> nat \<Rightarrow> nat \<Rightarrow> segment list \<Rightarrow> segment list" where
  "patched_segments svc lim k [] = []"
| "patched_segments svc lim k (s # ss) =
     (if needy s then
        (case patch_of (svc k) of
           Some v \<Rightarrow> if k < lim then s\<lparr>mn := v\<rparr> else s
         | None \<Rightarrow> s)
          # patched_segments svc lim (Suc k) ss
      else s # patched_segments svc lim k ss)"

fun patched_blocks :: "service \<Rightarrow> nat \<Rightarrow> nat \<Rightarrow> block list \<Rightarrow> block list" where
  "patched_blocks svc lim k [] = []"
| "patched_blocks svc lim k (b # bs) =
     b\<lparr>content := patched_segments svc lim k (content b)\<rparr>
       # patched_blocks svc lim (k + length (filter needy (content b))) bs"

text \<open>The updated Document State: every reply to a segment that needs a patch has been used.\<close>

definition patched_doc :: "service \<Rightarrow> nat \<Rightarrow> block list \<Rightarrow> block list" where
  "patched_doc svc k data = patched_blocks svc (k + length (needy_segments data)) k data"

text \<open>
  What the Patcher does for the segments \<open>ss\<close> that need a patch, the first of them
  receiving the reply \<open>k\<close>: one request for each, and directly after the request, when the
  reply yields a patch, a write of the full Document State with this patch and the earlier
  ones. \<open>st lim\<close> is the Document State after the replies below \<open>lim\<close> have been used.
\<close>

fun patch_events ::
  "service \<Rightarrow> pystr \<Rightarrow> (nat \<Rightarrow> block list) \<Rightarrow> nat \<Rightarrow> segment list \<Rightarrow> event list" where
  "patch_events svc title st k [] = []"
| "patch_events svc title st k (s # ss) =
     Request (patch_request title s)
       # (if is_patch (svc k) then [Write_cache (st (Suc k))] else [])
       @ patch_events svc title st (Suc k) ss"





text \<open>
  The world after the Patcher: the log line of its start, the requests and writes, and the
  log line with the number of patches; the structural state file holds the updated
  Document State when there was a patch and is untouched otherwise.
\<close>

definition patched_world :: "env \<Rightarrow> pystr \<Rightarrow> world \<Rightarrow> block list \<Rightarrow> world" where
  "patched_world env title w data =
     (let svc = service env;
          k = n_requests w;
          n = count_patches svc k (length (needy_segments data));
          d = patched_doc svc k data
      in w\<lparr>cache_file :=
              (if 0 < n then Some \<lparr>fsize = dump_size env d, fdoc = Some d\<rparr> else cache_file w),
            trace :=
              trace w @ [Log Patching]
                @ patch_events svc title (\<lambda>lim. patched_blocks svc lim k data) k
                    (needy_segments data)
                @ [Log (if 0 < n then Patched n else No_patches_needed)]\<rparr>)"

text \<open>The Document States written to the structural state file, in order.\<close>

fun writes_of :: "event list \<Rightarrow> block list list" where
  "writes_of [] = []"
| "writes_of (Write_cache d # es) = d # writes_of es"
| "writes_of (e # es) = writes_of es"

text \<open>
  Notions for the segmenter. A text has no split point when no terminal punctuation mark
  in it is followed by whitespace.
\<close>

fun no_split :: "pystr \<Rightarrow> bool" where
  "no_split [] = True"
| "no_split [c] = True"
| "no_split (c # d # cs) = ((is_punc c \<and> is_space d) = False \<and> no_split (d # cs))"

text \<open>\<open>words[-1] if words else ""\<close> for the words of a chunk.\<close>

definition last_word :: "pystr \<Rightarrow> pystr" where
  "last_word chunk = (let words = split_ws [] chunk in if words \<noteq> [] then last words else [])"

text \<open>A text that \<open>strip\<close> leaves alone, and one that does not begin with whitespace.\<close>

definition stripped :: "pystr \<Rightarrow> bool" where
  "stripped s = (s = [] \<or> (is_space (hd s) = False \<and> is_space (last s) = False))"

definition no_lead :: "pystr \<Rightarrow> bool" where
  "no_lead s = (s = [] \<or> is_space (hd s) = False)"

text \<open>
  A sentence that the segmenter closes inside its loop: it ends with a terminal
  punctuation mark, and the last word before the mark is not an abbreviation.
\<close>

definition closed_sentence :: "pystr \<Rightarrow> bool" where
  "closed_sentence s = (s \<noteq> [] \<and> is_punc (last s) \<and> last_word (butlast s) \<notin> abbreviations)"

definition sentence_ok :: "pystr \<Rightarrow> bool" where
  "sentence_ok s = (stripped s \<and> no_split s)"

text \<open>
  The shape of the list that \<open>re.split\<close> returns: chunks without split points alternate
  with single punctuation marks, and only the first chunk may begin with whitespace
  (\<open>first\<close> tells whether the list starts at the first chunk).
\<close>

fun well_split :: "bool \<Rightarrow> pystr list \<Rightarrow> bool" where
  "well_split first [] = False"
| "well_split first [r] = (no_split r \<and> (first \<or> no_lead r))"
| "well_split first (c # p # rest) =
     (no_split c \<and> (first \<or> no_lead c) \<and> length p = 1 \<and> list_all is_punc p
      \<and> well_split False rest)"

text \<open>The last word of a text, read from its end.\<close>

definition last_run :: "pystr \<Rightarrow> pystr" where
  "last_run s = rev (takeWhile (\<lambda>c. \<not> is_space c) (dropWhile is_space (rev s)))"

text \<open>The list that \<open>re.split\<close> returns for sentences \<open>A\<close> that each end with a punctuation mark.\<close>

definition flat_pairs :: "pystr list \<Rightarrow> pystr list" where
  "flat_pairs A = concat (map (\<lambda>s. [butlast s, [last s]]) A)"

text \<open>What the segmenter keeps for a closed sentence.\<close>

definition closed_ok :: "pystr \<Rightarrow> bool" where
  "closed_ok s = (stripped s \<and> no_split s \<and> closed_sentence s)"

section \<open>Concrete inputs\<close>

text \<open>
  A reply with status 200 whose body is the service's envelope \<open>{"response": "<payload>"}\<close>,
  the payload written as a JSON string (quotes and backslashes escaped).
\<close>

definition json_escape :: "pystr \<Rightarrow> pystr" where
  "json_escape s = concat (map (\<lambda>c. if c = 34 \<or> c = 92 then [92, c] else [c]) s)"

definition envelope :: "pystr \<Rightarrow> reply" where
  "envelope payload =
     Response 200 (py ''{\"response\": \"'' @ json_escape payload @ py ''\"}'')"

definition empty_world :: world where
  "empty_world = \<lparr>cache_file = None, refined_file = None, pdf_file = None, trace = []\<rparr>"

text \<open>An environment with one source document and a service that gives the same reply to every call.\<close>

definition env_of :: "reply \<Rightarrow> page_block list list \<Rightarrow> env" where
  "env_of r ps =
     \<lparr>service = (\<lambda>k. r), pages = ps, image_exists = (\<lambda>p. True),
      dump_size = (\<lambda>d. 5000), pdf_size = (\<lambda>d. 50000)\<rparr>"

definition text_block :: "block_type \<Rightarrow> string \<Rightarrow> page_block" where
  "text_block ty s =
     \<lparr>pb_type = ty, pb_text = py s, pb_sentences = split_sentences (py s), pb_path = None\<rparr>"

definition image_block :: "string \<Rightarrow> page_block" where
  "image_block p = \<lparr>pb_type = Image, pb_text = [], pb_sentences = [], pb_path = Some (py p)\<rparr>"

text \<open>The Document State on disk after a run, if the file is there and decodes.\<close>

definition persisted_doc :: "world \<Rightarrow> block list option" where
  "persisted_doc w = (case cache_file w of None \<Rightarrow> None | Some f \<Rightarrow> fdoc f)"

text \<open>A one-page document: a paragraph followed by an image.\<close>

definition paragraph_then_image :: "page_block list list" where
  "paragraph_then_image = [[text_block Paragraph ''Hello world.'', image_block ''img_0_1.png'']]"

definition hello_reply :: reply where
  "hello_reply = envelope (py ''{\"translations\": [{\"en\": \"Hello world.\", \"mn\": \"Sain uu\"}]}'')"

text \<open>A reply whose \<open>translations\<close> entries are not objects.\<close>

definition bad_entries_reply :: reply where
  "bad_entries_reply = envelope (py ''{\"translations\": [1]}'')"

definition one_paragraph :: "page_block list list" where
  "one_paragraph = [[text_block Paragraph ''Hello world.'']]"

text \<open>A persisted Document State with one untranslated segment.\<close>

definition untranslated_doc :: "block list" where
  "untranslated_doc =
     [\<lparr>page = 1, btype = Paragraph, content = [\<lparr>en = py ''Hello world.'', mn = JStr []\<rparr>],
       path = None\<rparr>]"

definition world_with_cache :: "nat \<Rightarrow> block list option \<Rightarrow> world" where
  "world_with_cache n d =
     \<lparr>cache_file = Some \<lparr>fsize = n, fdoc = d\<rparr>, refined_file = None, pdf_file = None, trace = []\<rparr>"

text \<open>A persisted Document State that starts with an image, followed by a translated paragraph.\<close>

definition image_first_doc :: "block list" where
  "image_first_doc =
     [\<lparr>page = 1, btype = Image, content = [], path = Some (py ''images/img_0_0.png'')\<rparr>,
      \<lparr>page = 1, btype = Paragraph,
       content = [\<lparr>en = py ''Hello world.'', mn = JStr (py ''Sain uu.'')\<rparr>], path = None\<rparr>]"

text \<open>
  A Document State of an image and three translated paragraphs, and two replies to the
  Refiner that hold no list of texts under \<open>"refined_mn"\<close>: a string, and a list with a
  number.
\<close>

definition para :: "string \<Rightarrow> string \<Rightarrow> block" where
  "para e m =
     \<lparr>page = 1, btype = Paragraph, content = [\<lparr>en = py e, mn = JStr (py m)\<rparr>], path = None\<rparr>"

definition three_paragraphs :: "block list" where
  "three_paragraphs =
     [\<lparr>page = 1, btype = Image, content = [], path = Some (py ''images/img_0_0.png'')\<rparr>,
      para ''One.'' ''Neg.'', para ''Two.'' ''Khoyor.'', para ''Three.'' ''Gurav.'']"

definition string_refined_reply :: reply where
  "string_refined_reply = envelope (py ''{\"refined_mn\": \"AB\"}'')"

definition number_refined_reply :: reply where
  "number_refined_reply = envelope (py ''{\"refined_mn\": [1]}'')"


section \<open>Properties of the segmenter\<close>

text \<open>
  Claim C7. The segmenter applied to \<open>"Dr. Smith arrived. He left."\<close> returns exactly two
  sentences, the first of which should contain \<open>"Dr. Smith arrived."\<close>. The code returns two
  sentences, but when it rejoins a split suppressed by an abbreviation it does not put back
  the whitespace that the regular expression consumed: the first sentence is
  \<open>"Dr.Smith arrived."\<close>, which does not contain \<open>"Dr. Smith arrived."\<close>.
\<close>

theorem split_sentences_abbreviation_drops_space:
  "split_sentences (py ''Dr. Smith arrived. He left.'')
     = [py ''Dr.Smith arrived.'', py ''He left.'']
   \<and> length (split_sentences (py ''Dr. Smith arrived. He left.'')) = 2
   \<and> is_substring (py ''Dr. Smith arrived.'')
        (hd (split_sentences (py ''Dr. Smith arrived. He left.''))) = False"
  by (simp add: split_sentences_def py_def is_punc_def is_space_def strip_def
      abbreviations_def)

section \<open>Evaluation\<close>

lemmas string_eval =
  py_def is_punc_def is_space_def strip_def abbreviations_def endswith_punc_def

lemmas json_eval =
  json_loads_def skip_ws_def is_json_ws_def escape_char_def decode_uXXXX_def hexval_def
  parse_number_def is_digit_def digits_value_def dict_get_def

lemmas extract_eval =
  main_extract_json_def assemble_extract_json_def clean_text_def keep_char_def
  up_to_last_def response_text_def translations_of_def

lemmas input_eval =
  json_escape_def envelope_def empty_world_def env_of_def text_block_def image_block_def
  persisted_doc_def world_with_cache_def

lemmas encodable_eval =
  doc_encodable_def block_encodable_def segment_encodable_def str_encodable_def
  is_surrogate_def

lemmas stage1_eval =
  process_book_stage1_def flush_batch_def translate_sentence_batch_def n_requests_def
  dump_cache_def logline_def add_punc_def encodable_eval

lemmas patcher_eval =
  patch_missing_translations_def needs_patch_def patch_value_def dict_get_def Let_def

lemma hello_sentences_py: "split_sentences (py ''Hello world.'') = [py ''Hello world.'']"
  by (simp add: split_sentences_def string_eval)

lemmas hello_sentences = hello_sentences_py [unfolded py_def, simplified]

lemma hello_translations:
  "translations_of hello_reply
     = JArr [JObj [(py ''en'', JStr (py ''Hello world.'')), (py ''mn'', JStr (py ''Sain uu''))]]"
  by (simp add: hello_reply_def input_eval extract_eval json_eval string_eval)

lemma bad_entries_translations: "translations_of bad_entries_reply = JArr [JInt 1]"
  by (simp add: bad_entries_reply_def input_eval extract_eval json_eval string_eval)

section \<open>Stage 1: block order\<close>

text \<open>
  Claim C1. The persisted Document State should list the blocks in source reading order,
  an image never before a text block that precedes it in the source. Stage 1 appends an
  image at once but holds a text block back until the next flush: for a page with a
  paragraph followed by an image, and a service that translates the paragraph, the
  persisted state has the image first.
\<close>

theorem stage1_image_overtakes_pending_text:
  "\<exists>w. process_book_stage1 (env_of hello_reply paragraph_then_image) (py ''Book'') empty_world
          = Inr w
       \<and> persisted_doc w
          = Some [\<lparr>page = 1, btype = Image, content = [], path = Some (py ''img_0_1.png'')\<rparr>,
                  \<lparr>page = 1, btype = Paragraph,
                   content = [\<lparr>en = py ''Hello world.'', mn = JStr (py ''Sain uu.'')\<rparr>],
                   path = None\<rparr>]
       \<and> map pb_type (concat paragraph_then_image) = [Paragraph, Image]"
  by (simp add: paragraph_then_image_def hello_sentences hello_translations input_eval
      stage1_eval string_eval)

section \<open>Malformed replies\<close>

text \<open>
  Claim C3. Every malformed reply should degrade to an empty result without an exception
  escaping. For a reply whose payload is \<open>{"translations": [1]}\<close> the batch translator
  returns the list \<open>[1]\<close> as it is; the dict comprehension of \<open>flush_batch\<close> then evaluates
  \<open>"en" in 1\<close> and Stage 1 ends with a \<open>TypeError\<close>, and the Patcher evaluates \<open>1.get("mn")\<close> and
  ends with an \<open>AttributeError\<close>. Both are outside any \<open>try\<close>.
\<close>

theorem non_object_entries_raise:
  "translations_of bad_entries_reply = JArr [JInt 1]
   \<and> process_book_stage1 (env_of bad_entries_reply one_paragraph) (py ''Book'') empty_world
       = Inl TypeError
   \<and> patch_missing_translations (env_of bad_entries_reply []) (py ''Book'')
         (world_with_cache 5000 (Some untranslated_doc))
       = Inl AttributeError"
  by (simp add: one_paragraph_def untranslated_doc_def hello_sentences
      bad_entries_translations input_eval stage1_eval patcher_eval string_eval)

section \<open>The two \<open>extract_json\<close> routines\<close>

lemma sub_trailing_comma_id:
  "\<not> has_trailing_comma cl s \<Longrightarrow> sub_trailing_comma cl s = s"
  by (induction cl s rule: sub_trailing_comma.induct) auto

lemma has_trailing_comma_append1:
  "has_trailing_comma cl s \<Longrightarrow> has_trailing_comma cl (s @ t)"
proof (induction s)
  case Nil
  then show ?case by simp
next
  case (Cons c cs)
  show ?case
  proof (cases "c = 44 \<and> dropWhile is_space cs \<noteq> [] \<and> hd (dropWhile is_space cs) = cl")
    case True
    then have ne: "dropWhile is_space cs \<noteq> []" by simp
    then obtain x where "x \<in> set cs" "\<not> is_space x"
      by (metis dropWhile_eq_Nil_conv)
    then have "dropWhile is_space (cs @ t) = dropWhile is_space cs @ t"
      by (rule dropWhile_append1)
    with True ne show ?thesis by simp
  next
    case False
    with Cons show ?thesis by auto
  qed
qed

lemma has_trailing_comma_append2:
  "has_trailing_comma cl t \<Longrightarrow> has_trailing_comma cl (s @ t)"
  by (induction s) auto

lemma up_to_last_prefix: "\<exists>r. cs = up_to_last x cs @ r"
proof -
  have "rev cs = takeWhile (\<lambda>c. c \<noteq> x) (rev cs) @ dropWhile (\<lambda>c. c \<noteq> x) (rev cs)"
    by simp
  then have "cs = rev (dropWhile (\<lambda>c. c \<noteq> x) (rev cs)) @ rev (takeWhile (\<lambda>c. c \<noteq> x) (rev cs))"
    by (metis rev_append rev_rev_ident)
  then show ?thesis unfolding up_to_last_def by blast
qed

lemma search_span_infix: "search_span s = Some m \<Longrightarrow> \<exists>a b. s = a @ m @ b"
proof (induction s)
  case Nil
  then show ?case by simp
next
  case (Cons c cs)
  consider (brace) "c = 123 \<and> 125 \<in> set cs"
    | (bracket) "\<not> (c = 123 \<and> 125 \<in> set cs)" "c = 91 \<and> 93 \<in> set cs"
    | (skip) "\<not> (c = 123 \<and> 125 \<in> set cs)" "\<not> (c = 91 \<and> 93 \<in> set cs)"
    by blast
  then show ?case
  proof cases
    case brace
    with Cons.prems have m: "m = c # up_to_last 125 cs" by simp
    obtain r where "cs = up_to_last 125 cs @ r" using up_to_last_prefix by blast
    then have "c # cs = [] @ m @ r" using m by simp
    then show ?thesis by blast
  next
    case bracket
    with Cons.prems have m: "m = c # up_to_last 93 cs" by simp
    obtain r where "cs = up_to_last 93 cs @ r" using up_to_last_prefix by blast
    then have "c # cs = [] @ m @ r" using m by simp
    then show ?thesis by blast
  next
    case skip
    with Cons.prems have "search_span cs = Some m" by simp
    then obtain a b where "cs = a @ m @ b" using Cons.IH by blast
    then have "c # cs = (c # a) @ m @ b" by simp
    then show ?thesis by blast
  qed
qed

lemma span_no_trailing_comma:
  assumes "search_span s = Some m" and "\<not> has_trailing_comma cl s"
  shows "\<not> has_trailing_comma cl m"
proof
  assume h: "has_trailing_comma cl m"
  obtain a b where s: "s = a @ m @ b" using search_span_infix [OF assms(1)] by blast
  from h have "has_trailing_comma cl (m @ b)" by (rule has_trailing_comma_append1)
  then have "has_trailing_comma cl (a @ m @ b)" by (rule has_trailing_comma_append2)
  with s assms(2) show False by simp
qed

lemma dropWhile_space_filter:
  "dropWhile is_space (filter keep_char cs)
     = filter keep_char (dropWhile space_or_deleted cs)"
  by (induction cs) (auto simp: space_or_deleted_def)

lemma hd_dropWhile_kept:
  assumes "dropWhile is_space (filter keep_char cs) \<noteq> []"
  shows "dropWhile space_or_deleted cs \<noteq> []
         \<and> hd (dropWhile space_or_deleted cs) = hd (dropWhile is_space (filter keep_char cs))"
proof -
  let ?r = "dropWhile space_or_deleted cs"
  from assms have "filter keep_char ?r \<noteq> []"
    unfolding dropWhile_space_filter .
  then have ne: "?r \<noteq> []"
    by (metis filter.simps(1))
  then have "\<not> space_or_deleted (hd ?r)" by (rule hd_dropWhile)
  then have k: "keep_char (hd ?r)" by (simp add: space_or_deleted_def)
  from ne obtain x xs where r: "?r = x # xs" by (cases ?r) auto
  with k have "filter keep_char ?r = x # filter keep_char xs" by simp
  with r show ?thesis by (simp add: dropWhile_space_filter)
qed

lemma raw_trailing_comma_filter:
  "has_trailing_comma cl (filter keep_char s) \<Longrightarrow> raw_trailing_comma cl s"
proof (induction s)
  case Nil
  then show ?case by simp
next
  case (Cons c cs)
  show ?case
  proof (cases "keep_char c")
    case False
    with Cons show ?thesis by simp
  next
    case True
    with Cons.prems have
      "(c = 44 \<and> dropWhile is_space (filter keep_char cs) \<noteq> []
          \<and> hd (dropWhile is_space (filter keep_char cs)) = cl)
       \<or> has_trailing_comma cl (filter keep_char cs)"
      by simp
    then show ?thesis
    proof
      assume h: "c = 44 \<and> dropWhile is_space (filter keep_char cs) \<noteq> []
          \<and> hd (dropWhile is_space (filter keep_char cs)) = cl"
      then have "dropWhile space_or_deleted cs \<noteq> []
         \<and> hd (dropWhile space_or_deleted cs) = cl"
        using hd_dropWhile_kept [of cs] by simp
      with h show ?thesis by simp
    next
      assume "has_trailing_comma cl (filter keep_char cs)"
      then have "raw_trailing_comma cl cs" by (rule Cons.IH)
      then show ?thesis by simp
    qed
  qed
qed

lemma clean_text_string: "clean_text (JStr s) = Some (filter keep_char s)"
proof -
  have "list_all (\<lambda>ch. one_char ch \<noteq> None) (map (\<lambda>c. JStr [c]) s)"
    by (induction s) auto
  moreover have "map (\<lambda>ch. the (one_char ch)) (map (\<lambda>c. JStr [c]) s) = s"
    by (induction s) auto
  ultimately show ?thesis by (simp add: clean_text_def)
qed

text \<open>
  Claim C10. \<open>main.extract_json\<close> and \<open>assemble.extract_json\<close> should return the same result
  on every input. They do not: on \<open>{"a": 1,}\<close> the first removes the trailing comma and
  returns the object, the second passes the text to \<open>json.loads\<close> as it is and returns
  \<open>None\<close>.
\<close>

theorem extract_json_differ_on_trailing_comma:
  "main_extract_json (JStr (py ''{\"a\": 1,}'')) = Some (JObj [(py ''a'', JInt 1)])
   \<and> assemble_extract_json (JStr (py ''{\"a\": 1,}'')) = None
   \<and> main_extract_json (JStr (py ''{\"a\": 1,}''))
       \<noteq> assemble_extract_json (JStr (py ''{\"a\": 1,}''))"
  by (simp add: extract_eval json_eval string_eval)

text \<open>
  Claim C10, amended. The two routines return the same result on every input string in
  which no comma is followed, after any run of whitespace and of the control characters
  that \<open>extract_json\<close> deletes, by a closing brace or bracket.
\<close>

theorem extract_json_agree_without_trailing_comma:
  assumes "\<not> raw_trailing_comma 125 s"
    and "\<not> raw_trailing_comma 93 s"
  shows "main_extract_json (JStr s) = assemble_extract_json (JStr s)"
proof (cases "search_span (filter keep_char s)")
  case None
  then show ?thesis
    by (simp add: main_extract_json_def assemble_extract_json_def clean_text_string)
next
  case (Some m)
  have "\<not> has_trailing_comma 125 (filter keep_char s)"
    "\<not> has_trailing_comma 93 (filter keep_char s)"
    using raw_trailing_comma_filter assms by blast+
  then have "\<not> has_trailing_comma 125 m" "\<not> has_trailing_comma 93 m"
    using span_no_trailing_comma [OF Some] by blast+
  then have "sub_trailing_comma 93 (sub_trailing_comma 125 m) = m"
    by (simp add: sub_trailing_comma_id)
  with Some show ?thesis
    by (simp add: main_extract_json_def assemble_extract_json_def clean_text_string)
qed

theorem extract_json_agree_witness:
  "\<not> raw_trailing_comma 125 (py ''{\"a\": 1}'')
   \<and> \<not> raw_trailing_comma 93 (py ''{\"a\": 1}'')
   \<and> main_extract_json (JStr (py ''{\"a\": 1}''))
       = assemble_extract_json (JStr (py ''{\"a\": 1}''))
   \<and> assemble_extract_json (JStr (py ''{\"a\": 1}'')) = Some (JObj [(py ''a'', JInt 1)])"
proof -
  have t1: "\<not> raw_trailing_comma 125 (py ''{\"a\": 1}'')"
    by (simp add: py_def is_space_def space_or_deleted_def keep_char_def)
  have t2: "\<not> raw_trailing_comma 93 (py ''{\"a\": 1}'')"
    by (simp add: py_def is_space_def space_or_deleted_def keep_char_def)
  have v: "assemble_extract_json (JStr (py ''{\"a\": 1}'')) = Some (JObj [(py ''a'', JInt 1)])"
    by (simp add: extract_eval json_eval string_eval)
  from extract_json_agree_without_trailing_comma [OF t1 t2] t1 t2 v
  show ?thesis by simp
qed

section \<open>Terminal punctuation\<close>

lemma add_punc_ok: "add_punc v = Inr v' \<Longrightarrow> terminal_ok v'"
  by (cases v) (auto simp: add_punc_def endswith_punc_def is_punc_def py_def split: if_splits)

lemma fill_sentences_ok:
  "fill_sentences m ss = Inr segs \<Longrightarrow> list_all (\<lambda>s. terminal_ok (mn s)) segs"
  by (induction ss arbitrary: segs) (auto split: sum.splits dest: add_punc_ok)

lemma flush_blocks_ok:
  "flush_blocks m pbs full = Inr full' \<Longrightarrow> all_terminal_ok full \<Longrightarrow> all_terminal_ok full'"
proof (induction pbs arbitrary: full)
  case Nil
  then show ?case by simp
next
  case (Cons pb pbs)
  obtain pg b where pb: "pb = (pg, b)" by (cases pb)
  from Cons.prems(1) pb obtain segs where
    segs: "fill_sentences m (pb_sentences b) = Inr segs" and
    rest: "flush_blocks m pbs
             (full @ [\<lparr>page = pg, btype = pb_type b, content = segs, path = pb_path b\<rparr>])
           = Inr full'"
    by (auto split: sum.splits)
  have "all_terminal_ok
          (full @ [\<lparr>page = pg, btype = pb_type b, content = segs, path = pb_path b\<rparr>])"
    using Cons.prems(2) fill_sentences_ok [OF segs] by (simp add: all_terminal_ok_def)
  with rest show ?case by (rule Cons.IH)
qed

lemma flush_batch_ok:
  "flush_batch env n st = Inr st' \<Longrightarrow> all_terminal_ok (full_structure st)
   \<Longrightarrow> all_terminal_ok (full_structure st')"
  unfolding flush_batch_def
  by (auto split: if_splits prod.splits sum.splits dest: flush_blocks_ok)

lemma stage1_blocks_ok:
  "stage1_blocks env n pg bs st = Inr st' \<Longrightarrow> all_terminal_ok (full_structure st)
   \<Longrightarrow> all_terminal_ok (full_structure st')"
proof (induction bs arbitrary: st)
  case Nil
  then show ?case by simp
next
  case (Cons b bs)
  show ?case
  proof (cases "pb_type b = Image")
    case True
    with Cons.prems(1) obtain p where
      "stage1_blocks env n pg bs
         (st\<lparr>full_structure := full_structure st @
               [\<lparr>page = pg + 1, btype = Image, content = [], path = Some p\<rparr>]\<rparr>) = Inr st'"
      by (auto split: option.splits)
    moreover have "all_terminal_ok (full_structure st @
        [\<lparr>page = pg + 1, btype = Image, content = [], path = Some p\<rparr>])"
      using Cons.prems(2) by (simp add: all_terminal_ok_def)
    ultimately show ?thesis using Cons.IH by simp
  next
    case False
    define st1 where "st1 = (if pb_type b = Heading then st\<lparr>current_chapter := pb_text b\<rparr> else st)"
    define st2 where "st2 = st1\<lparr>pending_blocks := pending_blocks st1 @ [(pg + 1, b)],
                        pending_sentences := pending_sentences st1 @ pb_sentences b\<rparr>"
    have ok2: "all_terminal_ok (full_structure st2)"
      using Cons.prems(2) by (simp add: st2_def st1_def)
    show ?thesis
    proof (cases "length (pending_sentences st2) \<ge> 30")
      case True
      with Cons.prems(1) False obtain st3 w3 where
        f: "flush_batch env n st2 = Inr st3" and
        r: "stage1_blocks env n pg bs (st3\<lparr>s_world := w3\<rparr>) = Inr st'"
        by (auto simp: Let_def st2_def st1_def split: sum.splits)
      have "all_terminal_ok (full_structure st3)" using flush_batch_ok [OF f ok2] .
      with r show ?thesis using Cons.IH by simp
    next
      case F: False
      with Cons.prems(1) False have "stage1_blocks env n pg bs st2 = Inr st'"
        by (auto simp: Let_def st2_def st1_def)
      with ok2 show ?thesis using Cons.IH by simp
    qed
  qed
qed

lemma stage1_pages_ok:
  "stage1_pages env n pg ps st = Inr st' \<Longrightarrow> all_terminal_ok (full_structure st)
   \<Longrightarrow> all_terminal_ok (full_structure st')"
  by (induction ps arbitrary: st pg) (auto split: sum.splits dest: stage1_blocks_ok)

lemma process_book_stage1_ok:
  assumes "process_book_stage1 env n w = Inr w'" and "cache_file w = None"
  shows "\<exists>d. persisted_doc w' = Some d \<and> all_terminal_ok d"
proof -
  from assms obtain st st' wd where
    p: "stage1_pages env n 0 (pages env)
          \<lparr>full_structure = [], current_chapter = py ''Unknown'',
           pending_sentences = [], pending_blocks = [],
           s_world = logline Stage1_extracting w\<rparr> = Inr st" and
    f: "flush_batch env n st = Inr st'" and
    d: "dump_cache env (full_structure st') (s_world st') = Inr wd" and
    w': "w' = logline (Stage1_complete (length (full_structure st'))) wd"
    by (auto simp: process_book_stage1_def split: sum.splits)
  have "all_terminal_ok (full_structure st)"
    using stage1_pages_ok [OF p] by (simp add: all_terminal_ok_def)
  then have "all_terminal_ok (full_structure st')" using flush_batch_ok [OF f] by simp
  moreover have "persisted_doc w' = Some (full_structure st')"
    using d by (auto simp: w' persisted_doc_def logline_def dump_cache_def split: if_splits)
  ultimately show ?thesis by blast
qed

lemma patch_value_ok: "patch_value res = Inr (Some v) \<Longrightarrow> truthy v \<and> terminal_ok v"
  by (auto simp: patch_value_def endswith_punc_def is_punc_def py_def
      split: if_splits sum.splits json.splits)

lemma same_or_patched_refl: "list_all2 same_or_patched xs xs"
  by (simp add: list_all2_same same_or_patched_def)

lemma patch_content_rel:
  "patch_content env t pre b post done items (cnt, w) = Inr (c, cnt', w')
   \<Longrightarrow> \<exists>c2. c = done @ c2 \<and> list_all2 same_or_patched items c2"
proof (induction items arbitrary: "done" cnt w)
  case Nil
  then show ?case by simp
next
  case (Cons item items)
  from Cons.prems obtain item' cnt1 w1 where
    step: "patch_content env t pre b post (done @ [item']) items (cnt1, w1) = Inr (c, cnt', w')"
    and rel: "same_or_patched item item'"
    by (auto simp: Let_def same_or_patched_def
        split: sum.splits if_splits prod.splits option.splits dest: patch_value_ok)
  from Cons.IH [OF step] obtain c2 where
    "c = (done @ [item']) @ c2" "list_all2 same_or_patched items c2" by blast
  then have "c = done @ (item' # c2) \<and> list_all2 same_or_patched (item # items) (item' # c2)"
    using rel by simp
  then show ?case by blast
qed

lemma patch_blocks_rel:
  "patch_blocks env t pre bs (cnt, w) = Inr (d, cnt', w')
   \<Longrightarrow> \<exists>d2. d = pre @ d2
        \<and> list_all2 (\<lambda>b b'. list_all2 same_or_patched (content b) (content b')) bs d2"
proof (induction bs arbitrary: pre cnt w)
  case Nil
  then show ?case by simp
next
  case (Cons b bs)
  from Cons.prems obtain b' cnt1 w1 where
    step: "patch_blocks env t (pre @ [b']) bs (cnt1, w1) = Inr (d, cnt', w')"
    and rel: "list_all2 same_or_patched (content b) (content b')"
    by (auto split: sum.splits if_splits prod.splits
        dest!: patch_content_rel simp: same_or_patched_refl)
  from Cons.IH [OF step] obtain d2 where
    "d = (pre @ [b']) @ d2"
    "list_all2 (\<lambda>b b'. list_all2 same_or_patched (content b) (content b')) bs d2"
    by blast
  then have "d = pre @ (b' # d2)
      \<and> list_all2 (\<lambda>b b'. list_all2 same_or_patched (content b) (content b')) (b # bs) (b' # d2)"
    using rel by simp
  then show ?case by blast
qed

text \<open>
  Claim C4. Every target text that the Stage 1 flush or a successful patch produces is, if
  non-empty, terminated by one of \<open>.\<close>, \<open>!\<close>, \<open>?\<close>: every segment of the Document State that
  Stage 1 persists is in order, and the Patcher returns a Document State in which every
  segment is the one it read or carries a non-empty target text that is in order.
\<close>

theorem terminal_punctuation:
  "(process_book_stage1 env book_name w = Inr w' \<and> cache_file w = None
      \<longrightarrow> (\<exists>d. persisted_doc w' = Some d \<and> all_terminal_ok d))
   \<and> (patch_missing_translations env book_name w = Inr (data', w'') \<and> persisted_doc w = Some data
      \<longrightarrow> list_all2 (\<lambda>b b'. list_all2 same_or_patched (content b) (content b')) data data')"
proof (intro conjI impI)
  assume "process_book_stage1 env book_name w = Inr w' \<and> cache_file w = None"
  then show "\<exists>d. persisted_doc w' = Some d \<and> all_terminal_ok d"
    using process_book_stage1_ok by blast
next
  assume a: "patch_missing_translations env book_name w = Inr (data', w'')
             \<and> persisted_doc w = Some data"
  then obtain cnt w1 where
    "patch_blocks env book_name [] data (0, logline Patching w) = Inr (data', cnt, w1)"
    by (auto simp: patch_missing_translations_def persisted_doc_def logline_def
        split: option.splits sum.splits)
  from patch_blocks_rel [OF this] show
    "list_all2 (\<lambda>b b'. list_all2 same_or_patched (content b) (content b')) data data'"
    by simp
qed

theorem terminal_punctuation_witness:
  "\<exists>w' data' w''.
     process_book_stage1 (env_of hello_reply one_paragraph) (py ''Book'') empty_world = Inr w'
     \<and> cache_file empty_world = None
     \<and> (\<exists>d. persisted_doc w' = Some d \<and> all_terminal_ok d)
     \<and> patch_missing_translations (env_of hello_reply []) (py ''Book'')
          (world_with_cache 5000 (Some untranslated_doc)) = Inr (data', w'')
     \<and> persisted_doc (world_with_cache 5000 (Some untranslated_doc)) = Some untranslated_doc
     \<and> list_all2 (\<lambda>b b'. list_all2 same_or_patched (content b) (content b'))
          untranslated_doc data'
     \<and> map (\<lambda>b. map mn (content b)) data' = [[JStr (py ''Sain uu.'')]]"
proof -
  have "\<exists>w'. process_book_stage1 (env_of hello_reply one_paragraph) (py ''Book'') empty_world
          = Inr w'"
    by (simp add: one_paragraph_def hello_sentences hello_translations input_eval
        stage1_eval string_eval)
  then obtain w' where s: "process_book_stage1 (env_of hello_reply one_paragraph) (py ''Book'')
      empty_world = Inr w'" by blast
  have c: "cache_file empty_world = None" by (simp add: empty_world_def)
  have "\<exists>data' w''. patch_missing_translations (env_of hello_reply []) (py ''Book'')
          (world_with_cache 5000 (Some untranslated_doc)) = Inr (data', w'')
        \<and> map (\<lambda>b. map mn (content b)) data' = [[JStr (py ''Sain uu.'')]]"
    by (simp add: untranslated_doc_def hello_translations input_eval stage1_eval patcher_eval
        string_eval)
  then obtain data' w'' where
    p: "patch_missing_translations (env_of hello_reply []) (py ''Book'')
          (world_with_cache 5000 (Some untranslated_doc)) = Inr (data', w'')" and
    m: "map (\<lambda>b. map mn (content b)) data' = [[JStr (py ''Sain uu.'')]]" by auto
  have d: "persisted_doc (world_with_cache 5000 (Some untranslated_doc)) = Some untranslated_doc"
    by (simp add: persisted_doc_def world_with_cache_def)
  from terminal_punctuation [of "env_of hello_reply one_paragraph" "py ''Book''" empty_world w'
      data' w'' data] s c
  have r1: "\<exists>d. persisted_doc w' = Some d \<and> all_terminal_ok d" by blast
  from terminal_punctuation [of "env_of hello_reply []" "py ''Book''"
      "world_with_cache 5000 (Some untranslated_doc)" w' data' w'' untranslated_doc] p d
  have r2: "list_all2 (\<lambda>b b'. list_all2 same_or_patched (content b) (content b'))
      untranslated_doc data'" by blast
  from s c r1 p d r2 m show ?thesis by auto
qed

section \<open>The driver and an undersized structural state file\<close>

lemmas driver_eval =
  process_single_book_def from_refined_def from_structural_def is_valid_file_def
  assemble_process_single_book_def refine_narrative_chunked_def assemble_pdf_def
  assemble_epub_def dump_refined_def

text \<open>
  Claim C2. When the structural state file exists but is not larger than the threshold,
  the driver should run the Stage 1 extraction again. The driver does call
  \<open>process_book_stage1\<close>, but that function returns at once because the file exists (the
  undersized final PDF and refined state are removed first, the structural state is not).
  With a 50-byte file that does not decode the Patcher then fails on it; with a 2-byte
  file holding the empty state \<open>[]\<close> the book is completed from the empty state. In both
  runs no request is made and nothing is extracted, although the source document has a
  paragraph.
\<close>

theorem undersized_structural_state_not_reextracted:
  "process_book_stage1 (env_of hello_reply one_paragraph) (py ''Book'') (world_with_cache 50 None)
     = Inr (logline Stage1_already_done (world_with_cache 50 None))
   \<and> process_single_book (env_of hello_reply one_paragraph) (py ''Book'') (py ''Book'')
        (world_with_cache 50 None)
     = Inl JSONDecodeError
   \<and> process_single_book (env_of hello_reply one_paragraph) (py ''Book'') (py ''Book'')
        (world_with_cache 2 (Some []))
     = Inr \<lparr>cache_file = Some \<lparr>fsize = 2, fdoc = Some []\<rparr>,
            refined_file = Some \<lparr>fsize = 5000, fdoc = Some []\<rparr>,
            pdf_file = Some 50000,
            trace = [Log Stage1_already_done, Log Patching, Log No_patches_needed,
                     Log Stage23_refining_assembling, Write_refined [], Write_pdf [],
                     Write_epub [], Log Assembly_complete, Log Book_complete]\<rparr>"
  by (simp add: driver_eval input_eval stage1_eval patcher_eval)

section \<open>The reflowable renderer and a leading image\<close>

text \<open>
  Claim C9. The first block should always start a chapter, so that content before the
  first heading is kept. The test \<open>i == 0\<close> comes after the \<open>continue\<close> of the image branch:
  when the first block is an image no chapter is started at index 0, and the paragraph
  that follows is added to a content that belongs to no chapter. For a Document State
  of an image and a translated paragraph the book has no chapter at all.
\<close>

theorem epub_leading_image_drops_content:
  "assemble_epub (env_of No_response []) image_first_doc = Inr []
   \<and> assemble_epub (env_of No_response []) (tl image_first_doc)
      = Inr [\<lparr>ch_title = py ''Sain uu.'', ch_file_name = py ''chap_0.xhtml'',
               ch_content = py ''<h1>Sain uu.</h1>''\<rparr>]"
  by (simp add: image_first_doc_def assemble_epub_def epub_step_def join_mn_def basename_def
      input_eval py_def)

section \<open>The Refiner\<close>

lemmas refiner_eval =
  refine_narrative_chunked_def refine_chunk_def input_text_def is_translatable_def
  chunked.simps three_paragraphs_def para_def n_requests_def logline_def env_of_def
  empty_world_def Let_def string_eval

lemma string_refined_list: "refined_list_of string_refined_reply = Some (JStr (py ''AB''))"
  by (simp add: string_refined_reply_def refined_list_of_def input_eval extract_eval json_eval
      string_eval)

lemma number_refined_list: "refined_list_of number_refined_reply = Some (JArr [JInt 1])"
  by (simp add: number_refined_reply_def refined_list_of_def input_eval extract_eval json_eval
      string_eval)

text \<open>
  Claim C6. A chunk whose reply holds no list of texts should keep its original text, and
  a failure of the Refiner should never abort the pipeline. The code does not look at what
  it finds under \<open>"refined_mn"\<close>. When the reply is \<open>{"refined_mn": "AB"}\<close> the string is
  indexed as a list would be, and the target texts of the first two segments become the
  characters \<open>A\<close> and \<open>B\<close>. When the reply is \<open>{"refined_mn": [1]}\<close> the number is stored as
  the target text of the first segment, and the assembly of the book then ends with
  \<open>TypeError\<close> where it joins the target texts of that block.
\<close>

theorem refiner_takes_any_value_as_text:
  "fst (refine_narrative_chunked (env_of string_refined_reply []) (py ''Book'')
          three_paragraphs empty_world)
     = [\<lparr>page = 1, btype = Image, content = [], path = Some (py ''images/img_0_0.png'')\<rparr>,
        para ''One.'' ''A'', para ''Two.'' ''B'', para ''Three.'' ''Gurav.'']
   \<and> fst (refine_narrative_chunked (env_of number_refined_reply []) (py ''Book'')
          three_paragraphs empty_world)
     = [\<lparr>page = 1, btype = Image, content = [], path = Some (py ''images/img_0_0.png'')\<rparr>,
        \<lparr>page = 1, btype = Paragraph, content = [\<lparr>en = py ''One.'', mn = JInt 1\<rparr>],
         path = None\<rparr>,
        para ''Two.'' ''Khoyor.'', para ''Three.'' ''Gurav.'']
   \<and> assemble_process_single_book (env_of number_refined_reply []) (py ''Book'')
        three_paragraphs empty_world
     = Inl TypeError"
proof -
  have a: "fst (refine_narrative_chunked (env_of string_refined_reply []) (py ''Book'')
          three_paragraphs empty_world)
     = [\<lparr>page = 1, btype = Image, content = [], path = Some (py ''images/img_0_0.png'')\<rparr>,
        para ''One.'' ''A'', para ''Two.'' ''B'', para ''Three.'' ''Gurav.'']"
    by (simp add: refiner_eval string_refined_list)
  have b: "refine_narrative_chunked (env_of number_refined_reply []) (py ''Book'')
          three_paragraphs empty_world
     = ([\<lparr>page = 1, btype = Image, content = [], path = Some (py ''images/img_0_0.png'')\<rparr>,
        \<lparr>page = 1, btype = Paragraph, content = [\<lparr>en = py ''One.'', mn = JInt 1\<rparr>],
         path = None\<rparr>,
        para ''Two.'' ''Khoyor.'', para ''Three.'' ''Gurav.''],
        \<lparr>cache_file = None, refined_file = None, pdf_file = None,
         trace = [Log (Refining_chunks 1),
                  Request (Refine [JStr (py ''Neg.''), JStr (py ''Khoyor.''), JStr (py ''Gurav.'')]
                             (py ''Book''))]\<rparr>)"
    by (simp add: refiner_eval number_refined_list)
  have c: "assemble_process_single_book (env_of number_refined_reply []) (py ''Book'')
        three_paragraphs empty_world
     = Inl TypeError"
    unfolding assemble_process_single_book_def b
    by (simp add: dump_refined_def encodable_eval assemble_pdf_def join_mn_def para_def
        env_of_def py_def)
  from a b c show ?thesis by simp
qed

section \<open>The Patcher\<close>

subsection \<open>The specification: limits, requests and writes\<close>

lemma requests_of_append [simp]: "requests_of (a @ b) = requests_of a @ requests_of b"
  by (induction a rule: requests_of.induct) auto

lemma writes_of_append [simp]: "writes_of (a @ b) = writes_of a @ writes_of b"
  by (induction a rule: writes_of.induct) auto

lemma count_patches_add:
  "count_patches svc k (m + n) = count_patches svc k m + count_patches svc (k + m) n"
  by (induction m arbitrary: k) auto


lemma needy_segments_Cons:
  "needy_segments (b # bs) = filter needy (content b) @ needy_segments bs"
  by (simp add: needy_segments_def)



text \<open>Two limits above the last reply give the same state.\<close>

lemma patched_segments_above:
  "k + length (filter needy ss) \<le> lim \<Longrightarrow> k + length (filter needy ss) \<le> lim'
   \<Longrightarrow> patched_segments svc lim k ss = patched_segments svc lim' k ss"
  by (induction ss arbitrary: k) (auto split: option.splits)

lemma patched_blocks_above:
  "k + length (needy_segments bs) \<le> lim \<Longrightarrow> k + length (needy_segments bs) \<le> lim'
   \<Longrightarrow> patched_blocks svc lim k bs = patched_blocks svc lim' k bs"
proof (induction bs arbitrary: k)
  case Nil
  show ?case by simp
next
  case (Cons b bs)
  let ?n = "length (filter needy (content b))"
  from Cons.prems have
    a: "k + ?n \<le> lim" "k + ?n \<le> lim'" and
    r: "(k + ?n) + length (needy_segments bs) \<le> lim"
       "(k + ?n) + length (needy_segments bs) \<le> lim'"
    by (simp_all add: needy_segments_Cons)
  have "patched_segments svc lim k (content b) = patched_segments svc lim' k (content b)"
    using a by (rule patched_segments_above)
  moreover have "patched_blocks svc lim (k + ?n) bs = patched_blocks svc lim' (k + ?n) bs"
    using r by (rule Cons.IH)
  ultimately show ?case by simp
qed

text \<open>Replies that yield no patch change nothing.\<close>

lemma patched_segments_no_patch:
  "count_patches svc k (length (filter needy ss)) = 0 \<Longrightarrow> patched_segments svc lim k ss = ss"
  by (induction ss arbitrary: k) (auto simp: is_patch_def split: option.splits if_splits)

lemma patched_blocks_no_patch:
  "count_patches svc k (length (needy_segments bs)) = 0 \<Longrightarrow> patched_blocks svc lim k bs = bs"
proof (induction bs arbitrary: k)
  case Nil
  show ?case by simp
next
  case (Cons b bs)
  let ?n = "length (filter needy (content b))"
  from Cons.prems have
    a: "count_patches svc k ?n = 0" and
    r: "count_patches svc (k + ?n) (length (needy_segments bs)) = 0"
    by (simp_all add: needy_segments_Cons count_patches_add)
  have "patched_segments svc lim k (content b) = content b"
    using a by (rule patched_segments_no_patch)
  moreover have "patched_blocks svc lim (k + ?n) bs = bs"
    using r by (rule Cons.IH)
  ultimately show ?case by simp
qed



text \<open>One request for each segment that needs a patch, in order.\<close>

lemma requests_of_patch_events:
  "requests_of (patch_events svc title st k ss) = map (patch_request title) ss"
  by (induction ss arbitrary: k) auto

text \<open>One write for each reply that yields a patch.\<close>

lemma length_writes_of_patch_events:
  "length (writes_of (patch_events svc title st k ss)) = count_patches svc k (length ss)"
  by (induction ss arbitrary: k) auto

subsection \<open>The loop over the items of one block\<close>






declare patch_content.simps(2) [simp del]

lemma needy_filter_True [simp]: "needs_patch item = Inr True \<Longrightarrow> needy item"
  by (simp add: needy_def)

lemma needy_filter_False [simp]: "needs_patch item = Inr False \<Longrightarrow> \<not> needy item"
  by (simp add: needy_def)



subsection \<open>The loop over the blocks\<close>






declare patch_blocks.simps(2) [simp del]






subsection \<open>The Patcher as a whole\<close>

text \<open>What the specification of the run says about requests, writes and the file.\<close>

lemma patched_world_requests:
  "requests_of (trace (patched_world env title w data))
     = requests_of (trace w) @ map (patch_request title) (needy_segments data)"
  by (simp add: patched_world_def Let_def requests_of_patch_events)

lemma patched_world_writes:
  "length (writes_of (trace (patched_world env title w data)))
     = length (writes_of (trace w))
       + count_patches (service env) (n_requests w) (length (needy_segments data))"
  by (simp add: patched_world_def Let_def length_writes_of_patch_events)

lemma patched_world_persisted:
  assumes "persisted_doc w = Some data"
  shows "persisted_doc (patched_world env title w data)
         = Some (patched_doc (service env) (n_requests w) data)"
proof (cases "0 < count_patches (service env) (n_requests w) (length (needy_segments data))")
  case True
  then show ?thesis by (simp add: patched_world_def Let_def persisted_doc_def)
next
  case False
  then have "patched_doc (service env) (n_requests w) data = data"
    by (simp add: patched_doc_def patched_blocks_no_patch)
  with False assms show ?thesis by (simp add: patched_world_def Let_def persisted_doc_def)
qed




section \<open>Idempotence of the segmenter\<close>

lemma punc_not_space: "is_punc c \<Longrightarrow> \<not> is_space c"
  by (auto simp: is_punc_def is_space_def py_def)

lemma abbreviation_no_punc: "a \<in> abbreviations \<Longrightarrow> x \<in> set a \<Longrightarrow> \<not> is_punc x"
  by (auto simp: abbreviations_def is_punc_def py_def)

lemma no_split_append:
  "no_split (a @ b)
     = (no_split a \<and> no_split b \<and> (a = [] \<or> b = [] \<or> \<not> (is_punc (last a) \<and> is_space (hd b))))"
proof (induction a rule: no_split.induct)
  case 1
  show ?case by simp
next
  case (2 c)
  show ?case by (cases b) auto
next
  case (3 c d cs)
  then show ?case by auto
qed

lemma last_dropWhile_rev:
  assumes "dropWhile P (rev y) \<noteq> []"
  shows "last (dropWhile P (rev y)) = hd y" and "y \<noteq> []"
proof -
  show y: "y \<noteq> []" using assms by auto
  have "rev y = takeWhile P (rev y) @ dropWhile P (rev y)" by simp
  then have "last (rev y) = last (dropWhile P (rev y))"
    using assms by (metis last_appendR)
  then show "last (dropWhile P (rev y)) = hd y" using y by (simp add: last_rev)
qed

lemma stripped_strip: "stripped (strip x)"
proof (cases "strip x = []")
  case True
  then show ?thesis by (simp add: stripped_def)
next
  case False
  define y where "y = dropWhile is_space x"
  define z where "z = dropWhile is_space (rev y)"
  have sx: "strip x = rev z" by (simp add: strip_def y_def z_def)
  with False have ne: "z \<noteq> []" by simp
  have hz: "\<not> is_space (hd z)" using ne unfolding z_def by (rule hd_dropWhile)
  have "last z = hd y" and yne: "y \<noteq> []"
    using last_dropWhile_rev [of is_space y] ne unfolding z_def by auto
  moreover have "\<not> is_space (hd y)" using yne unfolding y_def by (rule hd_dropWhile)
  ultimately have lz: "\<not> is_space (last z)" by simp
  show ?thesis using ne hz lz by (simp add: stripped_def sx hd_rev last_rev)
qed

lemma strip_stripped: "stripped s \<Longrightarrow> strip s = s"
proof (cases "s = []")
  case True
  then show ?thesis by (simp add: strip_def)
next
  case False
  assume "stripped s"
  with False have h: "\<not> is_space (hd s)" and l: "\<not> is_space (last s)"
    by (auto simp: stripped_def)
  from False h have "dropWhile is_space s = s" by (cases s) auto
  moreover have "dropWhile is_space (rev s) = rev s"
    using False l by (cases "rev s") (auto simp: last_rev [symmetric] hd_rev)
  ultimately show ?thesis by (simp add: strip_def)
qed

lemma no_split_strip: "no_split x \<Longrightarrow> no_split (strip x)"
proof -
  assume ns: "no_split x"
  let ?y = "dropWhile is_space x"
  have "x = takeWhile is_space x @ ?y" by simp
  with ns have y: "no_split ?y" by (metis no_split_append)
  have "?y = rev (dropWhile is_space (rev ?y)) @ rev (takeWhile is_space (rev ?y))"
    by (metis rev_append rev_rev_ident takeWhile_dropWhile_id)
  with y have "no_split (rev (dropWhile is_space (rev ?y)))" by (metis no_split_append)
  then show ?thesis by (simp add: strip_def)
qed

lemma strip_snoc: "\<not> is_space p \<Longrightarrow> strip (y @ [p]) = dropWhile is_space y @ [p]"
proof -
  assume p: "\<not> is_space p"
  have "dropWhile is_space (y @ [p]) = dropWhile is_space y @ [p]"
    using p by (induction y) auto
  then show ?thesis using p by (simp add: strip_def)
qed

lemma re_split_no_split_prefix:
  "no_split (s @ [x]) \<Longrightarrow> re_split cur (s @ x # t) = re_split (cur @ s) (x # t)"
proof (induction s arbitrary: cur)
  case Nil
  show ?case by simp
next
  case (Cons c cs)
  have ns: "no_split (cs @ [x])" using Cons.prems by (cases cs) auto
  have nb: "\<not> (is_punc c \<and> is_space (hd (cs @ x # t)))"
    using Cons.prems by (cases cs) auto
  have "re_split cur ((c # cs) @ x # t) = re_split (cur @ [c]) (cs @ x # t)"
    using nb by auto
  also have "\<dots> = re_split ((cur @ [c]) @ cs) (x # t)" using Cons.IH [OF ns] .
  finally show ?case by simp
qed

lemma re_split_no_split: "no_split s \<Longrightarrow> re_split cur s = [cur @ s]"
proof (induction s arbitrary: cur)
  case Nil
  show ?case by simp
next
  case (Cons c cs)
  have ns: "no_split cs" using Cons.prems by (cases cs) auto
  have nb: "\<not> (is_punc c \<and> cs \<noteq> [] \<and> is_space (hd cs))"
    using Cons.prems by (cases cs) auto
  have "re_split cur (c # cs) = re_split (cur @ [c]) cs" using nb by auto
  also have "\<dots> = [(cur @ [c]) @ cs]" using Cons.IH [OF ns] .
  finally show ?case by simp
qed

lemma hd_join_sp: "s \<noteq> [] \<Longrightarrow> hd (join_sp (s # ss)) = hd s"
  by (cases ss) simp_all

lemma join_sp_Nil_iff: "s \<noteq> [] \<Longrightarrow> join_sp (s # ss) \<noteq> []"
  by (cases ss) simp_all

lemma re_split_joined:
  assumes "\<forall>s\<in>set S. s \<noteq> [] \<and> stripped s \<and> no_split s"
    and "\<forall>s\<in>set (butlast S). closed_sentence s"
    and "S \<noteq> []"
  shows "re_split [] (join_sp S) = flat_pairs (butlast S) @ [last S]"
  using assms
proof (induction S rule: join_sp.induct)
  case 1
  then show ?case by simp
next
  case (2 s)
  then show ?case by (simp add: re_split_no_split flat_pairs_def)
next
  case (3 s t ss)
  let ?J = "join_sp (t # ss)"
  have s: "s \<noteq> []" "no_split s" "closed_sentence s" using 3(2,3) by auto
  have t: "t \<noteq> []" "stripped t" using 3(2) by auto
  obtain Z p where sZ: "s = Z @ [p]" using s(1) by (metis rev_exhaust)
  have p: "is_punc p" using s(3) sZ by (simp add: closed_sentence_def)
  have J: "?J \<noteq> []" "\<not> is_space (hd ?J)"
    using t by (auto simp: join_sp_Nil_iff hd_join_sp stripped_def)
  then have dJ: "dropWhile is_space (32 # ?J) = ?J"
    by (cases ?J) (auto simp: is_space_def)
  have sp: "is_space 32" by (simp add: is_space_def)
  have ih: "re_split [] ?J = flat_pairs (butlast (t # ss)) @ [last (t # ss)]"
    using 3(1) 3(2,3) by (auto dest: in_set_butlastD)
  have "join_sp (s # t # ss) = Z @ p # 32 # ?J" using sZ by simp
  then have "re_split [] (join_sp (s # t # ss)) = re_split ([] @ Z) (p # 32 # ?J)"
    using re_split_no_split_prefix [of Z p "[]" "32 # ?J"] s(2) sZ by simp
  also have "\<dots> = Z # [p] # re_split [] (dropWhile is_space (32 # ?J))"
    using p sp by simp
  also have "\<dots> = Z # [p] # flat_pairs (butlast (t # ss)) @ [last (t # ss)]"
    using dJ ih by simp
  finally show ?case using sZ by (simp add: flat_pairs_def)
qed

lemma split_loop_single [simp]: "split_loop [r] current sentences = (current, sentences)"
  by simp

lemma split_loop_closed:
  "\<forall>s\<in>set A. closed_sentence s \<and> stripped s
   \<Longrightarrow> split_loop (flat_pairs A @ [r]) [] acc = ([], acc @ A)"
proof (induction A arbitrary: acc)
  case Nil
  show ?case by (simp add: flat_pairs_def)
next
  case (Cons s A)
  have s: "closed_sentence s" "stripped s" using Cons.prems by auto
  then have ne: "s \<noteq> []" and lw: "last_word (butlast s) \<notin> abbreviations"
    by (auto simp: closed_sentence_def)
  have st: "strip (butlast s @ [last s]) = s" using ne s(2) by (simp add: strip_stripped)
  have "split_loop (flat_pairs (s # A) @ [r]) [] acc
      = split_loop (flat_pairs A @ [r]) [] (acc @ [s])"
    using lw st by (simp add: flat_pairs_def last_word_def Let_def)
  also have "\<dots> = ([], (acc @ [s]) @ A)" using Cons.IH Cons.prems by simp
  finally show ?case by simp
qed

text \<open>A list of sentences that the segmenter reproduces.\<close>

lemma resegment:
  assumes "\<forall>s\<in>set S. length s > 2 \<and> stripped s \<and> no_split s"
    and "\<forall>s\<in>set (butlast S). closed_sentence s"
  shows "split_sentences (join_sp S) = S"
proof (cases "S = []")
  case True
  then show ?thesis by (simp add: split_sentences_def)
next
  case False
  have ne: "\<forall>s\<in>set S. s \<noteq> [] \<and> stripped s \<and> no_split s" using assms(1) by auto
  from False obtain s ss where S: "S = s # ss" by (cases S) auto
  then have J: "join_sp S \<noteq> []" using ne by (simp add: join_sp_Nil_iff)
  have raw: "re_split [] (join_sp S) = flat_pairs (butlast S) @ [last S]"
    using re_split_joined [OF ne assms(2) False] .
  have len: "length (flat_pairs A) = 2 * length A" for A
    by (induction A) (simp_all add: flat_pairs_def)
  have odd: "length (flat_pairs (butlast S) @ [last S]) mod 2 \<noteq> 0"
    by (simp add: len)
  have loop: "split_loop (flat_pairs (butlast S) @ [last S]) [] [] = ([], butlast S)"
    using split_loop_closed [of "butlast S" "last S" "[]"] assms ne
    by (auto dest: in_set_butlastD)
  have sl: "strip (last S) = last S"
    using ne False by (simp add: strip_stripped)
  have fb: "filter (\<lambda>s. length s > 2) (butlast S) = butlast S"
    using assms(1) by (auto simp: filter_id_conv dest: in_set_butlastD)
  have ll: "length (last S) > 2" using assms(1) False by simp
  have "split_sentences (join_sp S) = butlast S @ [last S]"
    using J raw odd loop sl fb ll
    by (simp add: split_sentences_def del: split_loop.simps)
  then show ?thesis using False by simp
qed

lemma takeWhile_before_space:
  "is_space c \<Longrightarrow> takeWhile (\<lambda>c. \<not> is_space c) (D @ c # R) = takeWhile (\<lambda>c. \<not> is_space c) D"
  by (induction D) simp_all

lemma dropWhile_all_space: "\<forall>x\<in>set B. is_space x \<Longrightarrow> dropWhile is_space (rev B @ X) = dropWhile is_space X"
  by (rule dropWhile_append2) simp

lemma last_run_all_space: "\<forall>x\<in>set B. is_space x \<Longrightarrow> last_run B = []"
  using dropWhile_all_space [of B "[]"] by (simp add: last_run_def del: dropWhile_eq_Nil_conv)

lemma last_run_no_space: "\<forall>x\<in>set A. \<not> is_space x \<Longrightarrow> last_run A = A"
proof -
  assume a: "\<forall>x\<in>set A. \<not> is_space x"
  then have d: "dropWhile is_space (rev A) = rev A" by (cases "rev A") auto
  have t: "takeWhile (\<lambda>c. \<not> is_space c) (rev A) = rev A"
    using a by (simp add: takeWhile_eq_all_conv)
  show ?thesis unfolding last_run_def d t by simp
qed

lemma last_run_space_all:
  assumes "is_space c" and "\<forall>x\<in>set B. is_space x"
  shows "last_run (A @ c # B) = last_run A"
proof -
  have "dropWhile is_space (rev B @ c # rev A) = dropWhile is_space (rev A)"
    using assms dropWhile_all_space [of B "c # rev A"] by simp
  then show ?thesis by (simp add: last_run_def)
qed

lemma last_run_space_some:
  assumes "is_space c" and "x \<in> set B" and "\<not> is_space x"
  shows "last_run (A @ c # B) = last_run B"
proof -
  have "dropWhile is_space (rev B @ c # rev A) = dropWhile is_space (rev B) @ c # rev A"
    using assms(2,3) by (auto simp: dropWhile_append1)
  then show ?thesis using assms(1) by (simp add: last_run_def takeWhile_before_space)
qed

lemma split_ws_Nil: "(split_ws cur s = []) = (cur = [] \<and> (\<forall>x\<in>set s. is_space x))"
  by (induction s arbitrary: cur) auto

lemma last_word_run_gen:
  "\<forall>x\<in>set cur. \<not> is_space x
   \<Longrightarrow> (if split_ws cur s \<noteq> [] then last (split_ws cur s) else []) = last_run (cur @ s)"
proof (induction s arbitrary: cur)
  case Nil
  then show ?case by (simp add: last_run_no_space)
next
  case (Cons c cs)
  show ?case
  proof (cases "is_space c")
    case False
    with Cons.prems have "\<forall>x\<in>set (cur @ [c]). \<not> is_space x" by simp
    from Cons.IH [OF this] False show ?thesis by (auto split: if_splits)
  next
    case True
    have ih: "(if split_ws [] cs \<noteq> [] then last (split_ws [] cs) else []) = last_run cs"
      using Cons.IH [of "[]"] by simp
    show ?thesis
    proof (cases "\<forall>x\<in>set cs. is_space x")
      case all: True
      then have e: "split_ws [] cs = []" by (simp add: split_ws_Nil)
      have "last_run (cur @ c # cs) = last_run cur"
        using True all by (rule last_run_space_all)
      then have "last_run (cur @ c # cs) = cur"
        using Cons.prems by (simp add: last_run_no_space)
      with True e show ?thesis by simp
    next
      case some: False
      then obtain x where x: "x \<in> set cs" "\<not> is_space x" by blast
      then have ne: "split_ws [] cs \<noteq> []" by (auto simp: split_ws_Nil)
      have "last_run (cur @ c # cs) = last_run cs"
        using True x by (rule last_run_space_some)
      with True ne ih show ?thesis by simp
    qed
  qed
qed

lemma last_word_run: "last_word s = last_run s"
  using last_word_run_gen [of "[]" s] by (simp add: last_word_def Let_def)

lemma last_run_dropWhile: "last_run (dropWhile is_space y) = last_run y"
proof (induction y)
  case Nil
  show ?case by simp
next
  case (Cons c cs)
  show ?case
  proof (cases "is_space c")
    case True
    have "last_run (c # cs) = last_run cs"
    proof (cases "\<forall>x\<in>set cs. is_space x")
      case all: True
      have "last_run ([] @ c # cs) = last_run []" using True all by (rule last_run_space_all)
      then show ?thesis using all by (simp add: last_run_all_space)
    next
      case False
      then obtain x where "x \<in> set cs" "\<not> is_space x" by blast
      with True have "last_run ([] @ c # cs) = last_run cs" by (rule last_run_space_some)
      then show ?thesis by simp
    qed
    with True Cons show ?thesis by simp
  next
    case False
    then show ?thesis by simp
  qed
qed

lemma last_run_after_punc:
  assumes "\<not> is_space q"
  shows "last_run (K @ [q] @ c) = last_run c \<or> q \<in> set (last_run (K @ [q] @ c))"
proof (cases "\<forall>x\<in>set c. is_space x")
  case True
  then have "dropWhile is_space (rev c @ q # rev K) = q # rev K"
    using assms dropWhile_all_space [of c "q # rev K"] by simp
  then have "q \<in> set (last_run (K @ [q] @ c))" using assms by (simp add: last_run_def)
  then show ?thesis ..
next
  case False
  define D where "D = dropWhile is_space (rev c)"
  have d: "dropWhile is_space (rev c @ q # rev K) = D @ q # rev K"
    using False by (auto simp: dropWhile_append1 D_def)
  show ?thesis
  proof (cases "\<forall>x\<in>set D. \<not> is_space x")
    case True
    then have "takeWhile (\<lambda>c. \<not> is_space c) (D @ q # rev K)
        = D @ takeWhile (\<lambda>c. \<not> is_space c) (q # rev K)"
      by (simp add: takeWhile_append2)
    then have "q \<in> set (last_run (K @ [q] @ c))" using assms d by (simp add: last_run_def)
    then show ?thesis ..
  next
    case False
    then have "takeWhile (\<lambda>c. \<not> is_space c) (D @ q # rev K) = takeWhile (\<lambda>c. \<not> is_space c) D"
      by (auto simp: takeWhile_append1)
    then have "last_run (K @ [q] @ c) = last_run c" using d by (simp add: last_run_def D_def)
    then show ?thesis ..
  qed
qed

text \<open>The sentence that the loop closes is a closed sentence.\<close>

lemma closed_sentence_strip:
  assumes "is_punc x" and "last_word c \<notin> abbreviations"
    and "current = [] \<or> is_punc (last current)"
  shows "closed_sentence (strip (current @ c @ [x]))"
proof -
  have nx: "\<not> is_space x" using assms(1) by (rule punc_not_space)
  have st: "strip (current @ c @ [x]) = dropWhile is_space (current @ c) @ [x]"
    using strip_snoc [OF nx, of "current @ c"] by simp
  have "last_word (current @ c) \<notin> abbreviations"
  proof (cases "current = []")
    case True
    with assms(2) show ?thesis by simp
  next
    case False
    with assms(3) obtain K q where cur: "current = K @ [q]" and q: "is_punc q"
      by (metis append_butlast_last_id)
    have "\<not> is_space q" using q by (rule punc_not_space)
    from last_run_after_punc [OF this, of K c]
    have "last_word (current @ c) = last_word c \<or> q \<in> set (last_word (current @ c))"
      by (simp add: cur last_word_run)
    then show ?thesis
    proof
      assume "last_word (current @ c) = last_word c"
      with assms(2) show ?thesis by simp
    next
      assume "q \<in> set (last_word (current @ c))"
      with q show ?thesis using abbreviation_no_punc by blast
    qed
  qed
  then have "last_word (dropWhile is_space (current @ c)) \<notin> abbreviations"
    by (simp add: last_word_run last_run_dropWhile)
  with st assms(1) show ?thesis by (simp add: closed_sentence_def)
qed

lemma no_split_short: "length s \<le> 1 \<Longrightarrow> no_split s"
  by (cases s rule: no_split.cases) simp_all

lemma no_lead_dropWhile: "no_lead (dropWhile is_space cs)"
  using hd_dropWhile [of is_space cs] by (auto simp: no_lead_def)

lemma re_split_well_split:
  "no_split (cur @ take 1 t) \<Longrightarrow> first \<or> no_lead (cur @ t)
   \<Longrightarrow> well_split first (re_split cur t)"
proof (induction cur t arbitrary: first rule: re_split.induct)
  case (1 cur)
  then show ?case by simp
next
  case (2 cur c cs)
  have nc: "no_split (cur @ [c])" using 2(3) by simp
  show ?case
  proof (cases "is_punc c \<and> cs \<noteq> [] \<and> is_space (hd cs)")
    case True
    have "no_split ([] @ take 1 (dropWhile is_space cs))"
      by (simp add: no_split_short)
    moreover have "False \<or> no_lead ([] @ dropWhile is_space cs)"
      by (simp add: no_lead_dropWhile)
    ultimately have ih: "well_split False (re_split [] (dropWhile is_space cs))"
      using 2(1) [OF True] by blast
    have c1: "no_split cur" using nc by (simp add: no_split_append)
    have c2: "first \<or> no_lead cur" using 2(4) by (cases cur) (auto simp: no_lead_def)
    from True ih c1 c2 show ?thesis by simp
  next
    case False
    have "no_split ((cur @ [c]) @ take 1 cs)"
    proof (cases cs)
      case Nil
      with nc show ?thesis by simp
    next
      case (Cons d ds)
      with False have "\<not> (is_punc c \<and> is_space d)" by simp
      with nc Cons show ?thesis by (simp add: no_split_append)
    qed
    moreover have "first \<or> no_lead ((cur @ [c]) @ cs)" using 2(4) by simp
    ultimately have "well_split first (re_split (cur @ [c]) cs)"
      using 2(2) [OF False] by blast
    with False show ?thesis by auto
  qed
qed

lemma well_split_nonempty: "well_split first raw \<Longrightarrow> raw \<noteq> []"
  by (cases raw) simp_all

lemma split_loop_inv:
  "well_split first raw \<Longrightarrow> no_split current
   \<Longrightarrow> current = [] \<or> (\<not> first \<and> is_punc (last current))
   \<Longrightarrow> list_all closed_ok ss
   \<Longrightarrow> split_loop raw current ss = (cur', ss')
   \<Longrightarrow> list_all closed_ok ss' \<and> no_split (cur' @ last raw) \<and> length raw mod 2 = 1"
proof (induction first raw arbitrary: current ss rule: well_split.induct)
  case (1 first)
  then show ?case by simp
next
  case (2 first r)
  from 2(1) have r: "no_split r" "first \<or> no_lead r" by simp_all
  from 2(5) have c: "cur' = current" "ss' = ss" by simp_all
  have "no_split (current @ r)"
    using 2(2,3) r by (auto simp: no_split_append no_lead_def)
  with c 2(4) show ?case by simp
next
  case (3 first c p rest)
  from 3(2) obtain x where p: "p = [x]" and x: "is_punc x"
    by (cases p) auto
  from 3(2) have cc: "no_split c" "first \<or> no_lead c" and wr: "well_split False rest"
    by simp_all
  have rne: "rest \<noteq> []" using wr by (rule well_split_nonempty)
  have nx: "\<not> is_space x" using x by (rule punc_not_space)
  let ?cur = "current @ c @ [x]"
  have "no_split (current @ c)"
    using 3(3,4) cc by (auto simp: no_split_append no_lead_def)
  then have ns: "no_split ?cur"
    using nx no_split_append [of "current @ c" "[x]"] by simp
  have lw: "last_word c = (let words = split_ws [] c in if words \<noteq> [] then last words else [])"
    by (simp add: last_word_def)
  show ?case
  proof (cases "last_word c \<notin> abbreviations")
    case True
    then have sl: "split_loop rest [] (ss @ [strip ?cur]) = (cur', ss')"
      using 3(6) p by (simp add: last_word_def Let_def)
    have "closed_sentence (strip ?cur)"
      using x True 3(4) by (intro closed_sentence_strip) auto
    then have "closed_ok (strip ?cur)"
      using ns by (simp add: closed_ok_def stripped_strip no_split_strip)
    then have "list_all closed_ok (ss @ [strip ?cur])" using 3(5) by simp
    from 3(1) [OF wr _ _ this sl] have
      "list_all closed_ok ss' \<and> no_split (cur' @ last rest) \<and> length rest mod 2 = 1"
      by simp
    with rne show ?thesis by simp
  next
    case False
    then have sl: "split_loop rest ?cur ss = (cur', ss')"
      using 3(6) p by (simp add: last_word_def Let_def)
    have "?cur = [] \<or> (\<not> False \<and> is_punc (last ?cur))" using x by simp
    from 3(1) [OF wr ns this 3(5) sl] have
      "list_all closed_ok ss' \<and> no_split (cur' @ last rest) \<and> length rest mod 2 = 1" .
    with rne show ?thesis by simp
  qed
qed

lemma butlast_filter_snoc: "set (butlast (filter Q (xs @ [y]))) \<subseteq> set xs"
  by (auto dest: in_set_butlastD)

text \<open>The sentences that the segmenter returns.\<close>

lemma split_sentences_good:
  "(\<forall>s\<in>set (split_sentences t). length s > 2 \<and> stripped s \<and> no_split s)
   \<and> (\<forall>s\<in>set (butlast (split_sentences t)). closed_sentence s)"
proof (cases "t = []")
  case True
  then show ?thesis by (simp add: split_sentences_def)
next
  case False
  define raw where "raw = re_split [] t"
  obtain cur ss where sl: "split_loop raw [] [] = (cur, ss)"
    by (cases "split_loop raw [] []")
  have ws: "well_split True raw"
    unfolding raw_def by (rule re_split_well_split) (simp_all add: no_split_short)
  from split_loop_inv [OF ws _ _ _ sl]
  have inv: "list_all closed_ok ss" "no_split (cur @ last raw)" "length raw mod 2 = 1"
    by simp_all
  define f where "f = strip (cur @ last raw)"
  have f: "stripped f" "no_split f"
    using inv(2) by (simp_all add: f_def stripped_strip no_split_strip)
  have out: "split_sentences t = filter (\<lambda>s. length s > 2) (ss @ [f])"
    using False sl inv(3)
    by (cases "cur = []") (simp_all add: split_sentences_def raw_def [symmetric] f_def)
  have a: "\<forall>s\<in>set (ss @ [f]). stripped s \<and> no_split s"
    using inv(1) f by (auto simp: list_all_iff closed_ok_def)
  have b: "\<forall>s\<in>set (butlast (filter (\<lambda>s. length s > 2) (ss @ [f]))). closed_sentence s"
    using inv(1) butlast_filter_snoc [of "\<lambda>s. length s > 2" ss f]
    by (auto simp: list_all_iff closed_ok_def)
  show ?thesis unfolding out using a b by auto
qed

text \<open>
  Claim C8. Segmenting the output of the segmenter, joined by single spaces, yields the
  same sentences.
\<close>

theorem split_sentences_idempotent:
  "split_sentences (join_sp (split_sentences t)) = split_sentences t"
  using split_sentences_good [of t] by (intro resegment) blast+

lemma dr_smith_sentences:
  "split_sentences (py ''Dr. Smith arrived. He left.'')
     = [py ''Dr.Smith arrived.'', py ''He left.'']"
  by (simp add: split_sentences_def string_eval)

theorem split_sentences_idempotent_witness:
  "split_sentences (join_sp [py ''Dr.Smith arrived.'', py ''He left.''])
     = [py ''Dr.Smith arrived.'', py ''He left.'']"
  using split_sentences_idempotent [of "py ''Dr. Smith arrived. He left.''"]
  by (simp only: dr_smith_sentences)


end
